theory Spec2Isabelle
  imports Main
begin

section \<open>JavaScript strings\<close>

text \<open>
  A JavaScript string is a sequence of UTF-16 code units. The model uses \<^typ>\<open>string\<close>, so it
  covers the strings all of whose code units are below 256 (the Latin-1 range); on that range
  one \<^typ>\<open>char\<close> is one code unit and \<^const>\<open>length\<close> is the JavaScript \<^verbatim>\<open>length\<close>.
\<close>

text \<open>
  The characters that \<^verbatim>\<open>\s\<close>, \<^verbatim>\<open>String.prototype.trim\<close> and \<^verbatim>\<open>parseInt\<close> treat as white
  space (WhiteSpace and LineTerminator of ECMAScript), as far as they lie in the range: TAB, LF,
  VT, FF, CR, SPACE and NO-BREAK SPACE.
\<close>

definition whiteSpace :: "char list" where
  "whiteSpace = [CHR 0x09, CHR 0x0A, CHR 0x0B, CHR 0x0C, CHR 0x0D, CHR 0x20, CHR 0xA0]"

definition is_space :: "char \<Rightarrow> bool" where
  "is_space c = (c \<in> set whiteSpace)"

text \<open>\<^verbatim>\<open>s.trim()\<close>\<close>

definition trimStart :: "string \<Rightarrow> string" where
  "trimStart s = dropWhile is_space s"

definition trimEnd :: "string \<Rightarrow> string" where
  "trimEnd s = rev (dropWhile is_space (rev s))"

definition trim :: "string \<Rightarrow> string" where
  "trim s = trimEnd (trimStart s)"

text \<open>\<^verbatim>\<open>s.startsWith(p)\<close> and \<^verbatim>\<open>s.includes(p)\<close>: \<open>p\<close> occurs in \<open>s\<close> as a contiguous run.\<close>

fun startsWith :: "string \<Rightarrow> string \<Rightarrow> bool" where
  "startsWith s [] = True"
| "startsWith [] (p # ps) = False"
| "startsWith (c # cs) (p # ps) = (c = p \<and> startsWith cs ps)"

fun str_includes :: "string \<Rightarrow> string \<Rightarrow> bool" where
  "str_includes [] p = (p = [])"
| "str_includes (c # cs) p = (startsWith (c # cs) p \<or> str_includes cs p)"

text \<open>\<^verbatim>\<open>s.endsWith(p)\<close>\<close>

definition endsWith :: "string \<Rightarrow> string \<Rightarrow> bool" where
  "endsWith s p = startsWith (rev s) (rev p)"

text \<open>
  \<^verbatim>\<open>s.split(sep)\<close> for a separator of one character: the pieces between the separators, the
  empty string giving one empty piece.
\<close>

fun split_on :: "char \<Rightarrow> string \<Rightarrow> string list" where
  "split_on sep [] = [] # []"
| "split_on sep (c # cs) =
     (if c = sep then [] # split_on sep cs
      else (case split_on sep cs of
              [] \<Rightarrow> [c] # []
            | piece # pieces \<Rightarrow> (c # piece) # pieces))"

text \<open>
  \<^verbatim>\<open>s.toLowerCase()\<close> on the range: the letters A to Z and the Latin-1 capitals
  (0xC0 to 0xDE without the multiplication sign 0xD7) move to their small forms.
\<close>

definition upperLetters :: "char list" where
  "upperLetters = ''ABCDEFGHIJKLMNOPQRSTUVWXYZ'' @
     [CHR 0xC0, CHR 0xC1, CHR 0xC2, CHR 0xC3, CHR 0xC4, CHR 0xC5, CHR 0xC6, CHR 0xC7,
      CHR 0xC8, CHR 0xC9, CHR 0xCA, CHR 0xCB, CHR 0xCC, CHR 0xCD, CHR 0xCE, CHR 0xCF,
      CHR 0xD0, CHR 0xD1, CHR 0xD2, CHR 0xD3, CHR 0xD4, CHR 0xD5, CHR 0xD6,
      CHR 0xD8, CHR 0xD9, CHR 0xDA, CHR 0xDB, CHR 0xDC, CHR 0xDD, CHR 0xDE]"

definition lowerLetters :: "char list" where
  "lowerLetters = ''abcdefghijklmnopqrstuvwxyz'' @
     [CHR 0xE0, CHR 0xE1, CHR 0xE2, CHR 0xE3, CHR 0xE4, CHR 0xE5, CHR 0xE6, CHR 0xE7,
      CHR 0xE8, CHR 0xE9, CHR 0xEA, CHR 0xEB, CHR 0xEC, CHR 0xED, CHR 0xEE, CHR 0xEF,
      CHR 0xF0, CHR 0xF1, CHR 0xF2, CHR 0xF3, CHR 0xF4, CHR 0xF5, CHR 0xF6,
      CHR 0xF8, CHR 0xF9, CHR 0xFA, CHR 0xFB, CHR 0xFC, CHR 0xFD, CHR 0xFE]"

definition toLowerChar :: "char \<Rightarrow> char" where
  "toLowerChar c = (case map_of (zip upperLetters lowerLetters) c of None \<Rightarrow> c | Some d \<Rightarrow> d)"

definition toLowerCase :: "string \<Rightarrow> string" where
  "toLowerCase s = map toLowerChar s"

text \<open>
  The canonical form of a character under the \<^verbatim>\<open>i\<close> flag of a regular expression without the
  \<^verbatim>\<open>u\<close> flag: its capital, when that is one code unit and does not move a character from
  above 127 to below 128. In the range, the small letters move to their capitals; the sharp s
  (two code units as a capital), and the micro sign and the y with diaeresis (capitals outside
  the range, which no other character of the range shares) stay.
\<close>

definition canonicalize :: "char \<Rightarrow> char" where
  "canonicalize c = (case map_of (zip lowerLetters upperLetters) c of None \<Rightarrow> c | Some d \<Rightarrow> d)"

text \<open>\<^verbatim>\<open>n.toString()\<close> for a non-negative integer: its decimal digits.\<close>

definition digitChar :: "nat \<Rightarrow> char" where
  "digitChar d = ''0123456789'' ! d"

fun toString :: "nat \<Rightarrow> string" where
  "toString n = (if n < 10 then [digitChar n] else toString (n div 10) @ [digitChar (n mod 10)])"

declare toString.simps [simp del]

subsection \<open>\<^verbatim>\<open>parseInt\<close>\<close>

text \<open>
  \<^verbatim>\<open>parseInt(s)\<close> with no radix: leading white space is skipped, one sign is read, a prefix
  \<^verbatim>\<open>0x\<close> or \<^verbatim>\<open>0X\<close> selects radix 16 (radix 10 otherwise), and the longest run of digits of
  that radix is the value; with no digit the result is \<^verbatim>\<open>NaN\<close>, here \<^const>\<open>None\<close>. The value is
  kept as an exact integer (both zeros of JavaScript are the integer 0): the only use of the
  result is a comparison with an array length, whose outcome the rounding to a double does not
  change.
\<close>

definition digitTable :: "(char \<times> nat) list" where
  "digitTable =
     [(CHR ''0'', 0), (CHR ''1'', 1), (CHR ''2'', 2), (CHR ''3'', 3), (CHR ''4'', 4),
      (CHR ''5'', 5), (CHR ''6'', 6), (CHR ''7'', 7), (CHR ''8'', 8), (CHR ''9'', 9),
      (CHR ''a'', 10), (CHR ''b'', 11), (CHR ''c'', 12), (CHR ''d'', 13), (CHR ''e'', 14),
      (CHR ''f'', 15),
      (CHR ''A'', 10), (CHR ''B'', 11), (CHR ''C'', 12), (CHR ''D'', 13), (CHR ''E'', 14),
      (CHR ''F'', 15)]"

definition digitValue :: "char \<Rightarrow> nat" where
  "digitValue c = (case map_of digitTable c of None \<Rightarrow> 16 | Some d \<Rightarrow> d)"

definition isDigitOf :: "nat \<Rightarrow> char \<Rightarrow> bool" where
  "isDigitOf radix c = (digitValue c < radix)"

definition digitsValue :: "nat \<Rightarrow> string \<Rightarrow> nat" where
  "digitsValue radix z = foldl (\<lambda>acc c. acc * radix + digitValue c) 0 z"

definition parseInt :: "string \<Rightarrow> int option" where
  "parseInt input =
     (let s = trimStart input;
          neg = startsWith s ''-'';
          s1 = (if startsWith s ''-'' \<or> startsWith s ''+'' then drop 1 s else s);
          hex = (startsWith s1 ''0x'' \<or> startsWith s1 ''0X'');
          radix = (if hex then 16 else 10);
          s2 = (if hex then drop 2 s1 else s1);
          z = takeWhile (isDigitOf radix) s2
      in if z = [] then None
         else Some ((if neg then - 1 else 1) * int (digitsValue radix z)))"

section \<open>Inputs of the action\<close>

text \<open>
  \<^verbatim>\<open>core.getInput(name)\<close> reads the environment value of the input (the empty string when it
  is not set) and trims it. The record holds the raw values.
\<close>

record inputs =
  token :: string
  threshold :: string
  exclude_patterns :: string
  create_issues :: string
  issue_labels :: string

definition getInput :: "string \<Rightarrow> string" where
  "getInput raw = trim raw"

text \<open>\<^verbatim>\<open>parseInt(core.getInput('threshold')) || 10\<close>: \<^verbatim>\<open>NaN\<close> and \<^verbatim>\<open>0\<close> are falsy.\<close>

definition parseThreshold :: "string \<Rightarrow> int" where
  "parseThreshold raw =
     (case parseInt (getInput raw) of
        None \<Rightarrow> 10
      | Some v \<Rightarrow> if v = 0 then 10 else v)"

text \<open>
  \<^verbatim>\<open>core.getInput('exclude-patterns').split(',').map(p => p.trim()).filter(p => p.length > 0)\<close>
\<close>

definition parseExcludePatterns :: "string \<Rightarrow> string list" where
  "parseExcludePatterns raw =
     filter (\<lambda>pattern. length pattern > 0) (map trim (split_on (CHR '','') (getInput raw)))"

text \<open>\<^verbatim>\<open>excludePatterns.some(pattern => itemPath.includes(pattern))\<close>\<close>

definition excluded :: "string list \<Rightarrow> string \<Rightarrow> bool" where
  "excluded excludePatterns itemPath = list_ex (\<lambda>pattern. str_includes itemPath pattern) excludePatterns"

section \<open>The pattern matcher\<close>

text \<open>
  The twelve regular expressions of \<^verbatim>\<open>scanFileForTodos\<close> are built from two constructs only: a
  literal character and \<^verbatim>\<open>\s*\<close>. All carry the \<^verbatim>\<open>i\<close> flag and none is anchored.
\<close>

datatype atom = Lit char | SpaceStar

type_synonym regex = "atom list"

text \<open>
  A match of the expression at the start of the text. \<^verbatim>\<open>\s*\<close> is greedy and backtracks: it
  takes a white-space character and goes on, or gives way to the rest of the expression.
\<close>

fun matchHere :: "regex \<Rightarrow> string \<Rightarrow> bool" where
  "matchHere [] s = True"
| "matchHere (Lit c # r) [] = False"
| "matchHere (Lit c # r) (d # s) = (canonicalize c = canonicalize d \<and> matchHere r s)"
| "matchHere (SpaceStar # r) [] = matchHere r []"
| "matchHere (SpaceStar # r) (d # s) =
     ((is_space d \<and> matchHere (SpaceStar # r) s) \<or> matchHere r (d # s))"

text \<open>\<^verbatim>\<open>pattern.test(line)\<close>: a match at some position of the line.\<close>

fun test :: "regex \<Rightarrow> string \<Rightarrow> bool" where
  "test r [] = matchHere r []"
| "test r (c # s) = (matchHere r (c # s) \<or> test r s)"

text \<open>\<^verbatim>\<open>pattern.source\<close>: the text of the expression, where \<^verbatim>\<open>/\<close> and \<^verbatim>\<open>*\<close> are escaped.\<close>

fun atomSource :: "atom \<Rightarrow> string" where
  "atomSource (Lit c) =
     (if c = CHR ''/'' \<or> c = CHR ''*'' then [CHR 0x5C, c] else [c])"
| "atomSource SpaceStar = [CHR 0x5C, CHR ''s'', CHR ''*'']"

definition source :: "regex \<Rightarrow> string" where
  "source r = concat (map atomSource r)"

text \<open>A comment opener, \<^verbatim>\<open>\s*\<close>, a keyword.\<close>

definition marker :: "string \<Rightarrow> string \<Rightarrow> regex" where
  "marker opener keyword = map Lit opener @ [SpaceStar] @ map Lit keyword"

definition todoPatterns :: "regex list" where
  "todoPatterns =
     [marker ''//'' ''TODO'',
      marker ''/*'' ''TODO'',
      marker ''#'' ''TODO'',
      marker ''<!--'' ''TODO'',
      marker ''//'' ''FIXME'',
      marker ''/*'' ''FIXME'',
      marker ''#'' ''FIXME'',
      marker ''<!--'' ''FIXME'',
      marker ''//'' ''HACK'',
      marker ''/*'' ''HACK'',
      marker ''#'' ''HACK'',
      marker ''<!--'' ''HACK'']"

section \<open>Findings\<close>

text \<open>The objects pushed to \<^verbatim>\<open>todos\<close>; the field \<^verbatim>\<open>type\<close> is \<open>kind\<close> here.\<close>

record todo =
  "file" :: string
  line :: nat
  content :: string
  kind :: string

text \<open>
  \<^verbatim>\<open>pattern.source.includes('TODO') ? 'TODO' : pattern.source.includes('FIXME') ? 'FIXME' : 'HACK'\<close>
\<close>

definition patternKind :: "regex \<Rightarrow> string" where
  "patternKind pattern =
     (if str_includes (source pattern) ''TODO'' then ''TODO''
      else if str_includes (source pattern) ''FIXME'' then ''FIXME''
      else ''HACK'')"

text \<open>
  The loop \<^verbatim>\<open>for (const pattern of todoPatterns)\<close> on one line: the first pattern that matches
  pushes one finding and breaks.
\<close>

fun matchLine :: "string \<Rightarrow> nat \<Rightarrow> string \<Rightarrow> regex list \<Rightarrow> todo list" where
  "matchLine filePath lineNumber text [] = []"
| "matchLine filePath lineNumber text (pattern # patterns) =
     (if test pattern text
      then [\<lparr>file = filePath, line = lineNumber, content = trim text, kind = patternKind pattern\<rparr>]
      else matchLine filePath lineNumber text patterns)"

text \<open>The callback of \<^verbatim>\<open>lines.forEach((line, index) => ...)\<close>.\<close>

definition scanLine :: "string \<Rightarrow> nat \<Rightarrow> string \<Rightarrow> todo list" where
  "scanLine filePath index text = matchLine filePath (index + 1) text todoPatterns"

text \<open>\<^verbatim>\<open>lines.forEach\<close>, from the line of index \<open>index\<close> on.\<close>

fun scanLines :: "string \<Rightarrow> nat \<Rightarrow> string list \<Rightarrow> todo list" where
  "scanLines filePath index [] = []"
| "scanLines filePath index (text # rest) =
     scanLine filePath index text @ scanLines filePath (index + 1) rest"

section \<open>The repository snapshot\<close>

text \<open>
  An entry of a directory listing, with the fields the scan reads (\<^verbatim>\<open>type\<close> is \<open>itemType\<close>).
\<close>

record item =
  name :: string
  path :: string
  itemType :: string

text \<open>
  What \<^verbatim>\<open>octokit.rest.repos.getContent\<close> answers for a path at the commit of the run: the
  listing of a directory (an array), the object of a file, with its \<^verbatim>\<open>type\<close> and its decoded
  \<^verbatim>\<open>content\<close> (\<^const>\<open>None\<close> when the field is missing or empty, which is falsy; the base64
  decoding itself is not modelled), or a failed request, which throws. A snapshot gives the
  answer for every path.
\<close>

datatype response = Listing "item list" | FileObject string "string option" | Failure

type_synonym snapshot = "string \<Rightarrow> response"

section \<open>The issue tracker\<close>

text \<open>An issue as the search returns it; \<^verbatim>\<open>body\<close> may be \<^verbatim>\<open>null\<close>.\<close>

record issue =
  number :: nat
  title :: string
  body :: "string option"

text \<open>
  The sentence of the issue body that tells where the finding was detected: in a pull request,
  in a commit (its first seven characters) on a branch, or nowhere in particular.
\<close>

datatype contextInfo = InPullRequest nat | InCommit string string | NoContext

text \<open>
  The argument of \<^verbatim>\<open>octokit.rest.issues.create\<close>. The body is a fixed Markdown template; the
  record keeps the values that the template interpolates. \<open>assignees\<close> is empty when the field
  is not set.
\<close>

record draft =
  draftTitle :: string
  bodyFile :: string
  bodyLine :: nat
  bodyKind :: string
  bodyContent :: string
  bodyContext :: contextInfo
  labels :: "string list"
  assignees :: "string list"

text \<open>
  The tracker is a machine with a state of its own: a search answers with a list of issues or
  fails, the creation of an issue answers with the new issue or fails, and each request may
  change the state.
\<close>

record 's tracker =
  searchIssues :: "'s \<Rightarrow> string \<Rightarrow> issue list option \<times> 's"
  createIssue :: "'s \<Rightarrow> draft \<Rightarrow> issue option \<times> 's"

section \<open>Effects\<close>

text \<open>
  What a run does besides computing: the requests it sends, its warnings
  (\<^verbatim>\<open>core.warning\<close>), its outputs (\<^verbatim>\<open>core.setOutput\<close>) and its failure (\<^verbatim>\<open>core.setFailed\<close>),
  in the order in which they happen. The progress lines of \<^verbatim>\<open>core.info\<close> and the texts of the
  messages are left out.
\<close>

datatype warning =
    FailedToScanDirectory string
  | FailedToScanFile string
  | FailedToProcessTodo string nat
  | FailedToSearch
  | NoPRContext

datatype outputValue = Text string | Details "todo list"

datatype failure = TooManyTodos nat int | ActionFailed

datatype event =
    GetContent string
  | SearchIssues string
  | CreateIssue draft
  | Warning warning
  | SetOutput string outputValue
  | SetFailed failure

section \<open>The file scanner\<close>

text \<open>
  \<^verbatim>\<open>path.extname\<close> of Node (POSIX flavour): the loop runs from the last character to the first.
\<close>

record extState =
  startDot :: int
  startPart :: int
  endPos :: int
  matchedSlash :: bool
  preDotState :: int

text \<open>The argument is the part of the path not yet seen, reversed: its head is character \<open>i\<close>.\<close>

fun extnameLoop :: "string \<Rightarrow> extState \<Rightarrow> extState" where
  "extnameLoop [] st = st"
| "extnameLoop (code # earlier) st =
     (let i = int (length earlier) in
      if code = CHR ''/'' then
        (if \<not> matchedSlash st then st\<lparr>startPart := i + 1\<rparr>
         else extnameLoop earlier st)
      else
        (let st1 = (if endPos st = - 1 then st\<lparr>endPos := i + 1, matchedSlash := False\<rparr> else st);
             st2 = (if code = CHR ''.'' then
                      (if startDot st1 = - 1 then st1\<lparr>startDot := i\<rparr>
                       else if preDotState st1 \<noteq> 1 then st1\<lparr>preDotState := 1\<rparr>
                       else st1)
                    else if startDot st1 \<noteq> - 1 then st1\<lparr>preDotState := - 1\<rparr>
                    else st1)
         in extnameLoop earlier st2))"

definition extname :: "string \<Rightarrow> string" where
  "extname p =
     (let st = extnameLoop (rev p)
                 \<lparr>startDot = - 1, startPart = 0, endPos = - 1, matchedSlash = True,
                  preDotState = 0\<rparr>
      in if startDot st = - 1 \<or> endPos st = - 1 \<or> preDotState st = 0 \<or>
            (preDotState st = 1 \<and> startDot st = endPos st - 1 \<and> startDot st = startPart st + 1)
         then []
         else take (nat (endPos st - startDot st)) (drop (nat (startDot st)) p))"

definition codeExtensions :: "string list" where
  "codeExtensions =
     [''.js'', ''.jsx'', ''.ts'', ''.tsx'', ''.py'', ''.java'', ''.cpp'', ''.c'', ''.cs'',
      ''.php'', ''.rb'', ''.go'', ''.rs'', ''.swift'', ''.kt'', ''.scala'', ''.clj'', ''.hs'',
      ''.ml'', ''.fs'', ''.vb'', ''.sql'', ''.sh'', ''.bash'', ''.zsh'', ''.fish'', ''.ps1'',
      ''.bat'', ''.cmd'', ''.yml'', ''.yaml'', ''.json'', ''.xml'', ''.html'', ''.css'',
      ''.scss'', ''.sass'', ''.less'', ''.vue'', ''.svelte'', ''.md'', ''.txt'']"

text \<open>
  \<^verbatim>\<open>scanFileForTodos\<close>: the findings of one file and the effects of scanning it. A request that
  fails is caught and warned about; an answer that is not a file object with content gives
  nothing.
\<close>

definition scanFileForTodos :: "snapshot \<Rightarrow> item \<Rightarrow> todo list \<times> event list" where
  "scanFileForTodos getContent f =
     (let fileExtension = toLowerCase (extname (name f)) in
      if fileExtension \<notin> set codeExtensions then ([], [])
      else
        (case getContent (path f) of
           Failure \<Rightarrow> ([], [GetContent (path f), Warning (FailedToScanFile (path f))])
         | Listing entries \<Rightarrow> ([], [GetContent (path f)])
         | FileObject fileType fileText \<Rightarrow>
             (case fileText of
                None \<Rightarrow> ([], [GetContent (path f)])
              | Some decoded \<Rightarrow>
                  if fileType = ''file''
                  then (scanLines (path f) 0 (split_on (CHR 0x0A) decoded), [GetContent (path f)])
                  else ([], [GetContent (path f)]))))"

section \<open>The tree walker\<close>

text \<open>\<^verbatim>\<open>currentPath ? `${currentPath}/${item.name}` : item.name\<close>\<close>

definition joinPath :: "string \<Rightarrow> string \<Rightarrow> string" where
  "joinPath currentPath itemName =
     (if currentPath = [] then itemName else currentPath @ ''/'' @ itemName)"

text \<open>
  \<^verbatim>\<open>scanForTodos\<close>. The recursion follows the answers of the snapshot, which need not be a
  finite tree, so the function takes the number of directory levels it may descend and
  returns \<^const>\<open>None\<close> when that does not suffice. An answer to the listing of a directory
  that is not an array cannot be iterated: the exception is caught like a failed request.
\<close>

fun scanForTodos ::
  "nat \<Rightarrow> snapshot \<Rightarrow> string list \<Rightarrow> string \<Rightarrow> item list \<Rightarrow> (todo list \<times> event list) option"
where
  "scanForTodos depth getContent excludePatterns currentPath [] = Some ([], [])"
| "scanForTodos depth getContent excludePatterns currentPath (entry # rest) =
     (let itemPath = joinPath currentPath (name entry) in
      case
        (if excluded excludePatterns itemPath then Some ([], [])
         else if itemType entry = ''dir'' then
           (case getContent itemPath of
              Listing dirContents \<Rightarrow>
                (case depth of
                   0 \<Rightarrow> None
                 | Suc d \<Rightarrow>
                     (case scanForTodos d getContent excludePatterns itemPath dirContents of
                        None \<Rightarrow> None
                      | Some (subTodos, subEvents) \<Rightarrow>
                          Some (subTodos, GetContent itemPath # subEvents)))
            | FileObject fileType fileText \<Rightarrow>
                Some ([], [GetContent itemPath, Warning (FailedToScanDirectory itemPath)])
            | Failure \<Rightarrow>
                Some ([], [GetContent itemPath, Warning (FailedToScanDirectory itemPath)]))
         else if itemType entry = ''file'' then Some (scanFileForTodos getContent entry)
         else Some ([], []))
      of
        None \<Rightarrow> None
      | Some (todos, events) \<Rightarrow>
          (case scanForTodos depth getContent excludePatterns currentPath rest of
             None \<Rightarrow> None
           | Some (restTodos, restEvents) \<Rightarrow> Some (todos @ restTodos, events @ restEvents)))"

section \<open>The triggering context\<close>

text \<open>
  The fields of \<^verbatim>\<open>github.context\<close> that the run reads. A field that is \<^verbatim>\<open>undefined\<close> is
  \<^const>\<open>None\<close>: \<open>pullRequest\<close> is \<^verbatim>\<open>payload.pull_request\<close>, \<open>payloadNumber\<close> is
  \<^verbatim>\<open>payload.number\<close>, \<open>issueNumber\<close> is \<^verbatim>\<open>payload.issue?.number\<close> and \<open>senderLogin\<close> is
  \<^verbatim>\<open>payload.sender?.login\<close>.
\<close>

record pullRequest =
  prNumber :: "nat option"
  prUserLogin :: "string option"

record githubContext =
  eventName :: string
  sha :: string
  ref :: string
  owner :: string
  repo :: string
  pullRequest :: "pullRequest option"
  payloadNumber :: "nat option"
  issueNumber :: "nat option"
  senderLogin :: "string option"

text \<open>A number is truthy when it is defined and not zero, a string when defined and not empty.\<close>

definition truthyNumber :: "nat option \<Rightarrow> bool" where
  "truthyNumber v = (case v of None \<Rightarrow> False | Some n \<Rightarrow> n \<noteq> 0)"

definition truthyString :: "string option \<Rightarrow> bool" where
  "truthyString v = (case v of None \<Rightarrow> False | Some t \<Rightarrow> t \<noteq> [])"

text \<open>
  \<^verbatim>\<open>context.payload.pull_request?.number || context.payload.number || context.payload.issue?.number\<close>
\<close>

definition detectPrNumber :: "githubContext \<Rightarrow> nat option" where
  "detectPrNumber ctx =
     (let fromPullRequest = (case pullRequest ctx of None \<Rightarrow> None | Some pr \<Rightarrow> prNumber pr) in
      if truthyNumber fromPullRequest then fromPullRequest
      else if truthyNumber (payloadNumber ctx) then payloadNumber ctx
      else issueNumber ctx)"

text \<open>\<^verbatim>\<open>context.payload.pull_request?.user?.login || context.payload.sender?.login\<close>\<close>

definition detectPrAuthor :: "githubContext \<Rightarrow> string option" where
  "detectPrAuthor ctx =
     (let fromPullRequest = (case pullRequest ctx of None \<Rightarrow> None | Some pr \<Rightarrow> prUserLogin pr) in
      if truthyString fromPullRequest then fromPullRequest else senderLogin ctx)"

section \<open>The issue reconciler\<close>

text \<open>The two search queries of \<^verbatim>\<open>findExistingIssue\<close>.\<close>

definition searchQuery :: "githubContext \<Rightarrow> string \<Rightarrow> string" where
  "searchQuery ctx quoted =
     ''repo:'' @ owner ctx @ ''/'' @ repo ctx @ '' '' @ [CHR 0x22] @ quoted @ [CHR 0x22] @ '' is:issue''"

text \<open>
  The condition of the first loop:
  \<^verbatim>\<open>issue.body && (issue.body.includes(todo.file) || issue.body.includes(todo.content.trim()) ||
  issue.title.toLowerCase().includes('todo') || ... 'fixme' || ... 'hack')\<close>
\<close>

definition contentMatch :: "todo \<Rightarrow> issue \<Rightarrow> bool" where
  "contentMatch t i =
     (case body i of
        None \<Rightarrow> False
      | Some b \<Rightarrow>
          b \<noteq> [] \<and>
          (str_includes b (file t) \<or>
           str_includes b (trim (content t)) \<or>
           str_includes (toLowerCase (title i)) ''todo'' \<or>
           str_includes (toLowerCase (title i)) ''fixme'' \<or>
           str_includes (toLowerCase (title i)) ''hack''))"

text \<open>
  The condition of the second loop: \<^verbatim>\<open>issue.body && issue.body.includes(todo.content.trim())\<close>
\<close>

definition fileMatch :: "todo \<Rightarrow> issue \<Rightarrow> bool" where
  "fileMatch t i =
     (case body i of
        None \<Rightarrow> False
      | Some b \<Rightarrow> b \<noteq> [] \<and> str_includes b (trim (content t)))"

text \<open>A loop \<^verbatim>\<open>for (const issue of items) { if (cond) return issue; }\<close>\<close>

fun firstIssue :: "(issue \<Rightarrow> bool) \<Rightarrow> issue list \<Rightarrow> issue option" where
  "firstIssue cond [] = None"
| "firstIssue cond (i # items) = (if cond i then Some i else firstIssue cond items)"

text \<open>
  \<^verbatim>\<open>findExistingIssue\<close>: the issue found, if any, the state of the tracker afterwards and the
  effects. A search that fails is caught: a warning, and no issue.
\<close>

definition findExistingIssue ::
  "'s tracker \<Rightarrow> githubContext \<Rightarrow> 's \<Rightarrow> todo \<Rightarrow> issue option \<times> 's \<times> event list"
where
  "findExistingIssue tr ctx st t =
     (let query = searchQuery ctx (trim (content t)) in
      case searchIssues tr st query of
        (None, st1) \<Rightarrow> (None, st1, [SearchIssues query, Warning FailedToSearch])
      | (Some searchResults, st1) \<Rightarrow>
          (case firstIssue (contentMatch t) searchResults of
             Some i \<Rightarrow> (Some i, st1, [SearchIssues query])
           | None \<Rightarrow>
               (let fileSearchQuery = searchQuery ctx (file t) in
                case searchIssues tr st1 fileSearchQuery of
                  (None, st2) \<Rightarrow>
                    (None, st2,
                     [SearchIssues query, SearchIssues fileSearchQuery, Warning FailedToSearch])
                | (Some fileSearchResults, st2) \<Rightarrow>
                    (firstIssue (fileMatch t) fileSearchResults, st2,
                     [SearchIssues query, SearchIssues fileSearchQuery]))))"

subsection \<open>The title of a new issue\<close>

text \<open>\<^verbatim>\<open>s.replace(/^opener\s*/, '')\<close> and \<^verbatim>\<open>s.replace(/\s*closer$/, '')\<close>\<close>

definition stripOpener :: "string \<Rightarrow> string \<Rightarrow> string" where
  "stripOpener opener s =
     (if startsWith s opener then trimStart (drop (length opener) s) else s)"

definition stripCloser :: "string \<Rightarrow> string \<Rightarrow> string" where
  "stripCloser closer s =
     (if endsWith s closer then trimEnd (take (length s - length closer) s) else s)"

text \<open>
  \<^verbatim>\<open>s.replace(/\s+/g, ' ')\<close>: every run of white space becomes one space. The flag tells
  whether the character before was white space.
\<close>

fun collapseFrom :: "bool \<Rightarrow> string \<Rightarrow> string" where
  "collapseFrom inRun [] = []"
| "collapseFrom inRun (c # cs) =
     (if is_space c then (if inRun then collapseFrom True cs else CHR '' '' # collapseFrom True cs)
      else c # collapseFrom False cs)"

definition collapseSpaces :: "string \<Rightarrow> string" where
  "collapseSpaces s = collapseFrom False s"

definition cleanContent :: "string \<Rightarrow> string" where
  "cleanContent raw =
     trim (collapseSpaces
       (stripCloser ''-->'' (stripCloser ''*/''
         (stripOpener ''<!--'' (stripOpener ''/*'' (stripOpener ''#'' (stripOpener ''//''
           (trim raw))))))))"

text \<open>\<^verbatim>\<open>/^(TODO|FIXME|HACK):\s*/i.test(cleanContent)\<close>\<close>

definition todoPrefixes :: "regex list" where
  "todoPrefixes =
     [map Lit ''TODO:'' @ [SpaceStar], map Lit ''FIXME:'' @ [SpaceStar],
      map Lit ''HACK:'' @ [SpaceStar]]"

definition hasTodoPrefix :: "string \<Rightarrow> bool" where
  "hasTodoPrefix s = list_ex (\<lambda>r. matchHere r s) todoPrefixes"

text \<open>
  \<^verbatim>\<open>`${s.substring(0, 50)}${s.length > 50 ? '...' : ''}`\<close>
\<close>

definition truncated :: "string \<Rightarrow> string" where
  "truncated s = take 50 s @ (if length s > 50 then ''...'' else [])"

definition issueTitle :: "string \<Rightarrow> string" where
  "issueTitle raw =
     (let cleaned = cleanContent raw in
      if hasTodoPrefix cleaned then truncated cleaned
      else ''TODO: '' @ truncated cleaned)"

subsection \<open>Creation\<close>

text \<open>\<^verbatim>\<open>s.replace(pattern, replacement)\<close> for a string pattern: its first occurrence.\<close>

fun replaceFirst :: "string \<Rightarrow> string \<Rightarrow> string \<Rightarrow> string" where
  "replaceFirst [] p r = (if p = [] then r else [])"
| "replaceFirst (c # cs) p r =
     (if startsWith (c # cs) p then r @ drop (length p) (c # cs)
      else c # replaceFirst cs p r)"

definition issueContext :: "githubContext \<Rightarrow> contextInfo" where
  "issueContext ctx =
     (if truthyNumber (detectPrNumber ctx) then InPullRequest (the (detectPrNumber ctx))
      else if eventName ctx = ''push''
      then InCommit (take 7 (sha ctx)) (replaceFirst (ref ctx) ''refs/heads/'' [])
      else NoContext)"

definition issueAssignees :: "githubContext \<Rightarrow> string list" where
  "issueAssignees ctx =
     (if truthyNumber (detectPrNumber ctx) \<and> truthyString (detectPrAuthor ctx)
      then [the (detectPrAuthor ctx)] else [])"

definition issueData :: "githubContext \<Rightarrow> string list \<Rightarrow> todo \<Rightarrow> draft" where
  "issueData ctx labelList t =
     \<lparr>draftTitle = issueTitle (content t),
      bodyFile = file t,
      bodyLine = line t,
      bodyKind = kind t,
      bodyContent = trim (content t),
      bodyContext = issueContext ctx,
      labels = labelList,
      assignees = issueAssignees ctx\<rparr>"

text \<open>
  \<^verbatim>\<open>createIssueForTodo\<close>: the new issue, or \<^const>\<open>None\<close> when the request throws.
\<close>

definition createIssueForTodo ::
  "'s tracker \<Rightarrow> githubContext \<Rightarrow> string list \<Rightarrow> 's \<Rightarrow> todo \<Rightarrow> issue option \<times> 's \<times> event list"
where
  "createIssueForTodo tr ctx labelList st t =
     (case createIssue tr st (issueData ctx labelList t) of
        (created, st1) \<Rightarrow> (created, st1, [CreateIssue (issueData ctx labelList t)]))"

text \<open>
  The loop of \<^verbatim>\<open>processTodosForIssues\<close> over the findings, with the counters \<open>created\<close> and
  \<open>linked\<close>: a finding with an existing issue is linked; otherwise an issue is created, and a
  creation that throws is caught with a warning and counts as neither.
\<close>

fun processLoop ::
  "'s tracker \<Rightarrow> githubContext \<Rightarrow> string list \<Rightarrow> 's \<Rightarrow> nat \<times> nat \<Rightarrow> todo list \<Rightarrow>
   (nat \<times> nat) \<times> 's \<times> event list"
where
  "processLoop tr ctx labelList st counters [] = (counters, st, [])"
| "processLoop tr ctx labelList st (created, linked) (t # rest) =
     (case findExistingIssue tr ctx st t of
        (Some existingIssue, st1, events1) \<Rightarrow>
          (case processLoop tr ctx labelList st1 (created, linked + 1) rest of
             (counters, st3, events3) \<Rightarrow> (counters, st3, events1 @ events3))
      | (None, st1, events1) \<Rightarrow>
          (case createIssueForTodo tr ctx labelList st1 t of
             (Some newIssue, st2, events2) \<Rightarrow>
               (case processLoop tr ctx labelList st2 (created + 1, linked) rest of
                  (counters, st3, events3) \<Rightarrow> (counters, st3, events1 @ events2 @ events3))
           | (None, st2, events2) \<Rightarrow>
               (case processLoop tr ctx labelList st2 (created, linked) rest of
                  (counters, st3, events3) \<Rightarrow>
                    (counters, st3,
                     events1 @ events2 @ [Warning (FailedToProcessTodo (file t) (line t))]
                       @ events3))))"

definition processTodosForIssues ::
  "'s tracker \<Rightarrow> githubContext \<Rightarrow> string \<Rightarrow> 's \<Rightarrow> todo list \<Rightarrow> (nat \<times> nat) \<times> 's \<times> event list"
where
  "processTodosForIssues tr ctx issueLabels st todos =
     processLoop tr ctx (map trim (split_on (CHR '','') issueLabels)) st (0, 0) todos"

section \<open>The run\<close>

text \<open>
  The part of \<^verbatim>\<open>run\<close> after the scan: the outputs, the reconciliation when it is asked for
  and the context is one of a pull request, and the threshold.
\<close>

definition prContext :: "githubContext \<Rightarrow> bool" where
  "prContext ctx = (truthyNumber (detectPrNumber ctx) \<or> eventName ctx = ''pull_request'')"

definition report ::
  "inputs \<Rightarrow> githubContext \<Rightarrow> 's tracker \<Rightarrow> 's \<Rightarrow> todo list \<Rightarrow> 's \<times> event list"
where
  "report inp ctx tr st todos =
     (let thresholdValue = parseThreshold (threshold inp);
          createIssues = (getInput (create_issues inp) = ''true'');
          issueLabels =
            (if getInput (issue_labels inp) = [] then ''todo,enhancement''
             else getInput (issue_labels inp));
          todoCount = length todos;
          todoFiles = length (remdups (map file todos));
          scanOutputs =
            [SetOutput ''todo-count'' (Text (toString todoCount)),
             SetOutput ''todo-files'' (Text (toString todoFiles)),
             SetOutput ''todo-details'' (Details todos)];
          reconciled =
            (if createIssues then
               (if prContext ctx then processTodosForIssues tr ctx issueLabels st todos
                else ((0, 0), st, [Warning NoPRContext]))
             else ((0, 0), st, []))
      in case reconciled of
           ((issuesCreated, issuesLinked), st1, issueEvents) \<Rightarrow>
             (st1,
              scanOutputs @ issueEvents @
              [SetOutput ''issues-created'' (Text (toString issuesCreated)),
               SetOutput ''issues-linked'' (Text (toString issuesLinked))] @
              (if int todoCount > thresholdValue
               then [SetFailed (TooManyTodos todoCount thresholdValue)] else [])))"

text \<open>
  \<^verbatim>\<open>run\<close>. An exception outside the inner handlers reaches the handler of \<^verbatim>\<open>run\<close>, which
  fails the run: a missing token, a failed listing of the root, an answer for the root that is
  not an array. The result is the state of the tracker and the effects, or \<^const>\<open>None\<close> when
  the walker was not given levels enough.
\<close>

definition run ::
  "nat \<Rightarrow> inputs \<Rightarrow> githubContext \<Rightarrow> snapshot \<Rightarrow> 's tracker \<Rightarrow> 's \<Rightarrow> ('s \<times> event list) option"
where
  "run depth inp ctx getContent tr st =
     (if getInput (token inp) = [] then Some (st, [SetFailed ActionFailed])
      else
        (case getContent [] of
           Failure \<Rightarrow> Some (st, [GetContent [], SetFailed ActionFailed])
         | FileObject fileType fileText \<Rightarrow> Some (st, [GetContent [], SetFailed ActionFailed])
         | Listing contents \<Rightarrow>
             (case scanForTodos depth getContent (parseExcludePatterns (exclude_patterns inp))
                     [] contents of
                None \<Rightarrow> None
              | Some (todos, scanEvents) \<Rightarrow>
                  (case report inp ctx tr st todos of
                     (st1, events) \<Rightarrow> Some (st1, GetContent [] # scanEvents @ events)))))"

text \<open>The run is reported as failed when \<^verbatim>\<open>core.setFailed\<close> was called.\<close>

definition failed :: "event list \<Rightarrow> bool" where
  "failed events = list_ex (\<lambda>e. case e of SetFailed f \<Rightarrow> True | _ \<Rightarrow> False) events"

section \<open>An example repository\<close>

text \<open>
  A repository with \<^verbatim>\<open>src/a.js\<close>, whose third line is \<^verbatim>\<open>// TODO: fix\<close>, and
  \<^verbatim>\<open>node_modules/b.js\<close>, whose only line is \<^verbatim>\<open>// TODO: ignored\<close>.
\<close>

definition exampleSnapshot :: snapshot where
  "exampleSnapshot p =
     (if p = [] then
        Listing [\<lparr>name = ''src'', path = ''src'', itemType = ''dir''\<rparr>,
                 \<lparr>name = ''node_modules'', path = ''node_modules'', itemType = ''dir''\<rparr>]
      else if p = ''src'' then
        Listing [\<lparr>name = ''a.js'', path = ''src/a.js'', itemType = ''file''\<rparr>]
      else if p = ''src/a.js'' then
        FileObject ''file'' (Some ''const a = 1;\<newline>\<newline>// TODO: fix'')
      else if p = ''node_modules'' then
        Listing [\<lparr>name = ''b.js'', path = ''node_modules/b.js'', itemType = ''file''\<rparr>]
      else if p = ''node_modules/b.js'' then
        FileObject ''file'' (Some ''// TODO: ignored'')
      else Failure)"

text \<open>
  A tracker whose state is the list of its issues: a search answers with all of them, a
  creation appends the issue.
\<close>

definition listTracker :: "issue list tracker" where
  "listTracker =
     \<lparr>searchIssues = (\<lambda>st query. (Some st, st)),
      createIssue = (\<lambda>st d.
        (let i = \<lparr>number = length st + 1, title = draftTitle d, body = Some (bodyContent d)\<rparr>
         in (Some i, st @ [i])))\<rparr>"

definition exampleInputs :: inputs where
  "exampleInputs =
     \<lparr>token = ''secret'', threshold = ''10'', exclude_patterns = ''node_modules,dist,build,.git'',
      create_issues = ''false'', issue_labels = ''todo,enhancement''\<rparr>"

text \<open>A push to the main branch: no pull request in the payload.\<close>

definition pushContext :: githubContext where
  "pushContext =
     \<lparr>eventName = ''push'', sha = ''0123456789abcdef'', ref = ''refs/heads/main'',
      owner = ''octo'', repo = ''demo'', pullRequest = None, payloadNumber = None,
      issueNumber = None, senderLogin = Some ''octocat''\<rparr>"

section \<open>Notions used to state the properties\<close>

text \<open>
  The cleaned text with the prefix \<^verbatim>\<open>TODO: \<close> when it has none of its own: the title that
  \<^verbatim>\<open>createIssueForTodo\<close> would build without any truncation.
\<close>

definition prefixedText :: "string \<Rightarrow> string" where
  "prefixedText raw =
     (let cleaned = cleanContent raw in
      if hasTodoPrefix cleaned then cleaned else ''TODO: '' @ cleaned)"

text \<open>
  The acceptance condition of the first search in the words of the specification, to be
  compared with \<^const>\<open>contentMatch\<close>: the body contains the file path or the raw text, or the
  title contains one of the three words, whatever the case of its letters.
\<close>

definition acceptedAsStated :: "todo \<Rightarrow> issue \<Rightarrow> bool" where
  "acceptedAsStated t i =
     ((case body i of
         None \<Rightarrow> False
       | Some b \<Rightarrow> str_includes b (file t) \<or> str_includes b (trim (content t))) \<or>
      str_includes (toLowerCase (title i)) ''todo'' \<or>
      str_includes (toLowerCase (title i)) ''fixme'' \<or>
      str_includes (toLowerCase (title i)) ''hack'')"

text \<open>The body of the issue contains the trimmed raw text of the finding.\<close>

definition bodyHasText :: "todo \<Rightarrow> issue \<Rightarrow> bool" where
  "bodyHasText t i =
     (case body i of None \<Rightarrow> False | Some b \<Rightarrow> str_includes b (trim (content t)))"

text \<open>The finding of the example repository, and three issues.\<close>

definition exampleTodo :: todo where
  "exampleTodo = \<lparr>file = ''src/a.js'', line = 3, content = ''// TODO: fix'', kind = ''TODO''\<rparr>"

definition titleOnlyIssue :: issue where
  "titleOnlyIssue = \<lparr>number = 1, title = ''Clean up the TODO list'', body = None\<rparr>"

definition pathIssue :: issue where
  "pathIssue = \<lparr>number = 2, title = ''Refactor'', body = Some ''see src/a.js''\<rparr>"

definition textIssue :: issue where
  "textIssue = \<lparr>number = 3, title = ''Fix it'', body = Some ''found: // TODO: fix''\<rparr>"

text \<open>
  The results of two parts of a scan, one after the other; \<^const>\<open>None\<close> when either part did
  not return.
\<close>

definition appendResults ::
  "(todo list \<times> event list) option \<Rightarrow> (todo list \<times> event list) option \<Rightarrow>
   (todo list \<times> event list) option"
where
  "appendResults a b =
     (case a of
        None \<Rightarrow> None
      | Some (todos, events) \<Rightarrow>
          (case b of
             None \<Rightarrow> None
           | Some (restTodos, restEvents) \<Rightarrow> Some (todos @ restTodos, events @ restEvents)))"

text \<open>One turn of the loop of \<^verbatim>\<open>scanForTodos\<close>: what a single entry contributes.\<close>

definition scanEntry ::
  "nat \<Rightarrow> snapshot \<Rightarrow> string list \<Rightarrow> string \<Rightarrow> item \<Rightarrow> (todo list \<times> event list) option"
where
  "scanEntry depth getContent excludePatterns currentPath entry =
     scanForTodos depth getContent excludePatterns currentPath [entry]"

text \<open>
  A snapshot names its entries as the contents API does: the \<^verbatim>\<open>path\<close> of an entry in the
  listing of a directory is the path of the directory joined with the \<^verbatim>\<open>name\<close> of the entry
  (the name alone in the root).
\<close>

definition consistent :: "snapshot \<Rightarrow> bool" where
  "consistent getContent =
     (\<forall>d entries. getContent d = Listing entries \<longrightarrow>
        (\<forall>e\<in>set entries. path e = joinPath d (name e)))"

text \<open>
  The directories of a snapshot nest finitely when each path has a rank and the directories
  listed in a directory have a smaller rank than the directory: the height of a tree.
\<close>

definition ranked :: "(string \<Rightarrow> nat) \<Rightarrow> snapshot \<Rightarrow> bool" where
  "ranked rank getContent =
     (\<forall>d entries. getContent d = Listing entries \<longrightarrow>
        (\<forall>e\<in>set entries. itemType e = ''dir'' \<longrightarrow> rank (joinPath d (name e)) < rank d))"



section \<open>Strings: basic facts\<close>

lemma trimStart_all_space: "\<forall>c\<in>set s. is_space c \<Longrightarrow> trimStart s = []"
  by (simp add: trimStart_def)

lemma trim_all_space: "\<forall>c\<in>set s. is_space c \<Longrightarrow> trim s = []"
  by (simp add: trim_def trimEnd_def trimStart_all_space)

lemma set_trimStart: "set (trimStart s) \<subseteq> set s"
  unfolding trimStart_def by (rule set_dropWhileD [THEN subsetI])

lemma set_trimEnd: "set (trimEnd s) \<subseteq> set s"
  unfolding trimEnd_def using set_dropWhileD [of _ is_space "rev s"] by auto

lemma set_trim: "set (trim s) \<subseteq> set s"
  unfolding trim_def using set_trimStart set_trimEnd by blast

lemma str_includes_Nil: "str_includes p []"
  by (induction p) auto

lemma split_on_nonempty: "split_on sep s \<noteq> []"
  by (induction s) (auto split: list.splits)

text \<open>No piece of a split holds the separator, and every character of a piece is one of the text.\<close>

lemma split_on_chars: "piece \<in> set (split_on sep s) \<Longrightarrow> set piece \<subseteq> set s - {sep}"
proof (induction s arbitrary: piece)
  case Nil
  then show ?case by simp
next
  case (Cons c cs)
  show ?case
  proof (cases "c = sep")
    case True
    with Cons show ?thesis by auto
  next
    case False
    obtain p ps where sp: "split_on sep cs = p # ps"
      using split_on_nonempty [of sep cs] by (cases "split_on sep cs") auto
    from Cons.prems False sp have "piece = c # p \<or> piece \<in> set ps" by simp
    then show ?thesis
    proof
      assume "piece = c # p"
      moreover have "set p \<subseteq> set cs - {sep}" using Cons.IH [of p] sp by simp
      ultimately show ?thesis using False by auto
    next
      assume "piece \<in> set ps"
      then have "set piece \<subseteq> set cs - {sep}" using Cons.IH [of piece] sp by simp
      then show ?thesis by auto
    qed
  qed
qed

section \<open>Exclusion patterns\<close>

lemma parseExcludePatterns_no_empty: "[] \<notin> set (parseExcludePatterns raw)"
  by (simp add: parseExcludePatterns_def)

lemma parseExcludePatterns_blank:
  assumes "\<forall>c\<in>set raw. c = CHR '','' \<or> is_space c"
  shows "parseExcludePatterns raw = []"
proof -
  have "trim piece = []" if "piece \<in> set (split_on (CHR '','') (getInput raw))" for piece
  proof -
    have "set piece \<subseteq> set (getInput raw) - {CHR '',''}" using that by (rule split_on_chars)
    moreover have "set (getInput raw) \<subseteq> set raw" unfolding getInput_def by (rule set_trim)
    ultimately have "\<forall>c\<in>set piece. is_space c" using assms by auto
    then show ?thesis by (rule trim_all_space)
  qed
  then show ?thesis by (auto simp: parseExcludePatterns_def filter_empty_conv)
qed

lemma excluded_iff: "excluded ps p \<longleftrightarrow> (\<exists>pat\<in>set ps. str_includes p pat)"
  by (simp add: excluded_def list_ex_iff)

text \<open>
  Claim C10. The exclusion patterns are the trimmed pieces of the input between its commas,
  without the empty ones. So no input produces the empty pattern; a path is only ever excluded
  by a pattern that is not empty; and an input of commas and white space alone produces no
  pattern at all and excludes no path. (The empty pattern would exclude every path, by
  \<open>str_includes_Nil\<close>.)
\<close>

theorem exclude_patterns_never_empty:
  "[] \<notin> set (parseExcludePatterns raw) \<and>
   (excluded (parseExcludePatterns raw) p \<longrightarrow>
      (\<exists>pat\<in>set (parseExcludePatterns raw). pat \<noteq> [] \<and> str_includes p pat)) \<and>
   ((\<forall>c\<in>set raw. c = CHR '','' \<or> is_space c) \<longrightarrow>
      parseExcludePatterns raw = [] \<and> \<not> excluded (parseExcludePatterns raw) p)"
proof (intro conjI impI)
  show "[] \<notin> set (parseExcludePatterns raw)" by (rule parseExcludePatterns_no_empty)
next
  assume "excluded (parseExcludePatterns raw) p"
  then obtain pat where "pat \<in> set (parseExcludePatterns raw)" "str_includes p pat"
    by (auto simp: excluded_iff)
  moreover from this have "pat \<noteq> []" using parseExcludePatterns_no_empty [of raw] by auto
  ultimately show "\<exists>pat\<in>set (parseExcludePatterns raw). pat \<noteq> [] \<and> str_includes p pat" by blast
next
  assume a: "\<forall>c\<in>set raw. c = CHR '','' \<or> is_space c"
  then show "parseExcludePatterns raw = []" by (rule parseExcludePatterns_blank)
  then show "\<not> excluded (parseExcludePatterns raw) p" by (simp add: excluded_def)
qed

theorem exclude_patterns_never_empty_witness:
  "[] \<notin> set (parseExcludePatterns ''node_modules, dist,,build ,'') \<and>
   excluded (parseExcludePatterns ''node_modules, dist,,build ,'') ''src/dist/x.js'' \<and>
   (\<exists>pat\<in>set (parseExcludePatterns ''node_modules, dist,,build ,'').
      pat \<noteq> [] \<and> str_includes ''src/dist/x.js'' pat) \<and>
   list_all (\<lambda>c. c = CHR '','' \<or> is_space c) '' , ,, '' \<and>
   parseExcludePatterns '' , ,, '' = [] \<and>
   \<not> excluded (parseExcludePatterns '' , ,, '') ''src/dist/x.js''"
proof -
  have e: "excluded (parseExcludePatterns ''node_modules, dist,,build ,'') ''src/dist/x.js''"
    by code_simp
  have b: "\<forall>c\<in>set '' , ,, ''. c = CHR '','' \<or> is_space c"
    by (simp add: is_space_def whiteSpace_def)
  show ?thesis
    using e b
      exclude_patterns_never_empty [of "''node_modules, dist,,build ,''" "''src/dist/x.js''"]
      exclude_patterns_never_empty [of "'' , ,, ''" "''src/dist/x.js''"]
    unfolding list_all_iff by blast
qed

section \<open>The outcome of a run\<close>

lemma failed_append: "failed (xs @ ys) \<longleftrightarrow> failed xs \<or> failed ys"
  by (simp add: failed_def)

lemma failed_Cons:
  "failed (e # es) \<longleftrightarrow> (case e of SetFailed f \<Rightarrow> True | _ \<Rightarrow> False) \<or> failed es"
  by (simp add: failed_def)

lemma failed_Nil: "\<not> failed []"
  by (simp add: failed_def)

lemma findExistingIssue_not_failed: "\<not> failed (snd (snd (findExistingIssue tr ctx st t)))"
  by (auto simp: findExistingIssue_def Let_def failed_Cons failed_Nil
      split: prod.splits option.splits)

lemma createIssueForTodo_not_failed:
  "\<not> failed (snd (snd (createIssueForTodo tr ctx ls st t)))"
  by (auto simp: createIssueForTodo_def failed_Cons failed_Nil split: prod.splits)

lemma processLoop_not_failed:
  "\<not> failed (snd (snd (processLoop tr ctx ls st counters todos)))"
proof (induction todos arbitrary: st counters)
  case Nil
  then show ?case by (simp add: failed_Nil)
next
  case (Cons t rest)
  obtain created linked where c: "counters = (created, linked)" by (cases counters)
  show ?case
    unfolding c
    by (simp add: case_prod_beta failed_append failed_Cons failed_Nil Cons.IH
        findExistingIssue_not_failed createIssueForTodo_not_failed split: option.splits)
qed

text \<open>After a scan that completed, the run fails exactly when the count exceeds the threshold
  that was read.\<close>

lemma report_failed_iff:
  "failed (snd (report inp ctx tr st todos)) \<longleftrightarrow>
     int (length todos) > parseThreshold (threshold inp)"
  by (simp add: report_def Let_def processTodosForIssues_def failed_append failed_Cons
      failed_Nil case_prod_beta processLoop_not_failed)

text \<open>
  Claim C1. The claim: with threshold input \<open>t\<close> and \<open>n\<close> findings the run fails exactly when
  \<open>n > t\<close>, and so with threshold 0 and one finding it fails. The code reads the threshold as
  \<^verbatim>\<open>parseInt(...) || 10\<close>, where the number 0 is falsy: the input \<^verbatim>\<open>0\<close> is read as 10. On the
  example repository, whose scan gives one finding, the run with threshold input \<^verbatim>\<open>0\<close> does
  not fail. (For the numeral of any other threshold the run fails exactly when the count
  exceeds it: \<open>run_failed_decimal\<close> below.)
\<close>

theorem run_threshold_zero_one_finding:
  "parseThreshold ''0'' = 10 \<and>
   run 1 (exampleInputs\<lparr>threshold := ''0''\<rparr>) pushContext exampleSnapshot listTracker [] =
     Some ([],
       [GetContent [], GetContent ''src'', GetContent ''src/a.js'',
        SetOutput ''todo-count'' (Text ''1''),
        SetOutput ''todo-files'' (Text ''1''),
        SetOutput ''todo-details''
          (Details
            [\<lparr>file = ''src/a.js'', line = 3, content = ''// TODO: fix'', kind = ''TODO''\<rparr>]),
        SetOutput ''issues-created'' (Text ''0''),
        SetOutput ''issues-linked'' (Text ''0'')]) \<and>
   (case run 1 (exampleInputs\<lparr>threshold := ''0''\<rparr>) pushContext exampleSnapshot listTracker []
    of None \<Rightarrow> False | Some (st, events) \<Rightarrow> \<not> failed events)"
  by code_simp




section \<open>The issue reconciler\<close>

lemma firstIssue_Some: "firstIssue cond items = Some i \<Longrightarrow> cond i \<and> i \<in> set items"
  by (induction items) (auto split: if_splits)

lemma firstIssue_None: "firstIssue cond items = None \<longleftrightarrow> (\<forall>i\<in>set items. \<not> cond i)"
  by (induction items) auto

text \<open>The loop returns the first issue that meets the condition.\<close>

lemma firstIssue_split:
  "firstIssue cond items = Some j \<Longrightarrow>
     \<exists>pre post. items = pre @ j # post \<and> (\<forall>k\<in>set pre. \<not> cond k) \<and> cond j"
proof (induction items)
  case Nil
  then show ?case by simp
next
  case (Cons i items)
  show ?case
  proof (cases "cond i")
    case True
    with Cons.prems have "i = j" by simp
    with True have "i # items = [] @ j # items \<and> (\<forall>k\<in>set []. \<not> cond k) \<and> cond j" by simp
    then show ?thesis by blast
  next
    case False
    with Cons obtain pre post where "items = pre @ j # post" "\<forall>k\<in>set pre. \<not> cond k" "cond j"
      by auto
    with False have "i # items = (i # pre) @ j # post \<and> (\<forall>k\<in>set (i # pre). \<not> cond k) \<and> cond j"
      by simp
    then show ?thesis by blast
  qed
qed

lemma findExistingIssue_Some:
  "fst (findExistingIssue tr ctx st t) = Some i \<Longrightarrow> contentMatch t i \<or> fileMatch t i"
  by (auto simp: findExistingIssue_def Let_def split: prod.splits option.splits
      dest: firstIssue_Some)

text \<open>
  Claim C9. An issue whose body is absent or empty meets neither the condition of the first
  loop nor that of the second, whatever its title, and so \<^verbatim>\<open>findExistingIssue\<close> never
  returns it, for any finding and any behaviour of the tracker.
\<close>

theorem empty_body_never_matches:
  assumes "body i = None \<or> body i = Some []"
  shows "\<not> contentMatch t i \<and> \<not> fileMatch t i \<and>
         fst (findExistingIssue tr ctx st t) \<noteq> Some i"
proof -
  have m: "\<not> contentMatch t i" "\<not> fileMatch t i"
    using assms by (auto simp: contentMatch_def fileMatch_def)
  then have "fst (findExistingIssue tr ctx st t) \<noteq> Some i"
    using findExistingIssue_Some [of tr ctx st t i] by blast
  with m show ?thesis by simp
qed

text \<open>
  Claim C6, as stated, fails in both of its parts. With the results \<open>titleOnlyIssue\<close>,
  \<open>textIssue\<close> the first issue that is accepted in the words of the claim is the first one
  (its title contains \<^verbatim>\<open>todo\<close>), but the code passes it over, for it has no body, and
  accepts the second. With the results \<open>pathIssue\<close>, \<open>textIssue\<close> the first issue whose body
  contains the raw text is the second one, but the code accepts the first, whose body
  contains the file path.
\<close>

theorem reconciler_counterexample:
  "acceptedAsStated exampleTodo titleOnlyIssue \<and>
   firstIssue (acceptedAsStated exampleTodo) [titleOnlyIssue, textIssue] = Some titleOnlyIssue \<and>
   fst (findExistingIssue listTracker pushContext [titleOnlyIssue, textIssue] exampleTodo) =
     Some textIssue \<and>
   firstIssue (bodyHasText exampleTodo) [pathIssue, textIssue] = Some textIssue \<and>
   fst (findExistingIssue listTracker pushContext [pathIssue, textIssue] exampleTodo) =
     Some pathIssue"
  by code_simp

text \<open>
  Claim C6, amended. When the first search returns an issue with a body that is not empty and
  contains the trimmed raw text of the finding, \<^verbatim>\<open>findExistingIssue\<close> returns, after that one
  search, the first of the results that has a body that is not empty and whose body contains
  the file path or the raw text or whose title contains one of the three words; and the loop
  of \<^verbatim>\<open>processTodosForIssues\<close> counts the finding as linked and creates no issue for it.
\<close>

theorem content_search_hit_is_linked:
  assumes search: "searchIssues tr st (searchQuery ctx (trim (content t))) = (Some results, st1)"
    and hit: "i \<in> set results" "body i = Some b" "b \<noteq> []" "str_includes b (trim (content t))"
  shows "\<exists>j pre post.
           results = pre @ j # post \<and> (\<forall>k\<in>set pre. \<not> contentMatch t k) \<and> contentMatch t j \<and>
           findExistingIssue tr ctx st t =
             (Some j, st1, [SearchIssues (searchQuery ctx (trim (content t)))]) \<and>
           processLoop tr ctx labelList st (created, linked) (t # rest) =
             (case processLoop tr ctx labelList st1 (created, linked + 1) rest of
                (counters, st3, events3) \<Rightarrow>
                  (counters, st3, SearchIssues (searchQuery ctx (trim (content t))) # events3))"
proof -
  have "contentMatch t i" using hit by (simp add: contentMatch_def)
  with hit(1) have "firstIssue (contentMatch t) results \<noteq> None"
    by (auto simp: firstIssue_None)
  then obtain j where j: "firstIssue (contentMatch t) results = Some j" by auto
  then obtain pre post where sp: "results = pre @ j # post" "\<forall>k\<in>set pre. \<not> contentMatch t k"
    "contentMatch t j"
    using firstIssue_split by blast
  have f: "findExistingIssue tr ctx st t =
             (Some j, st1, [SearchIssues (searchQuery ctx (trim (content t)))])"
    using search j by (simp add: findExistingIssue_def Let_def)
  have "processLoop tr ctx labelList st (created, linked) (t # rest) =
             (case processLoop tr ctx labelList st1 (created, linked + 1) rest of
                (counters, st3, events3) \<Rightarrow>
                  (counters, st3, SearchIssues (searchQuery ctx (trim (content t))) # events3))"
    using f by (simp split: prod.splits)
  with sp f show ?thesis by blast
qed

section \<open>The title of a new issue\<close>

text \<open>
  Claim C4, as stated, fails when the cleaned text has no prefix of its own: the text below
  has 49 characters after cleaning and 55 with the prefix \<^verbatim>\<open>TODO: \<close>, and its title is all
  55 characters, with no ellipsis.
\<close>

theorem title_counterexample:
  "length (prefixedText ''// TODO remember to validate the input before saving'') > 50 \<and>
   issueTitle ''// TODO remember to validate the input before saving'' =
     ''TODO: TODO remember to validate the input before saving'' \<and>
   issueTitle ''// TODO remember to validate the input before saving'' \<noteq>
     take 50 (prefixedText ''// TODO remember to validate the input before saving'') @ ''...''"
  by code_simp

text \<open>
  Claim C4, amended. The code truncates the cleaned text, before the prefix \<^verbatim>\<open>TODO: \<close> is
  added. If the cleaned text has at most 50 characters, the title is the cleaned text, with
  the prefix when it has none of its own, and nothing is appended. If it has more, the title
  is its first 50 characters, with the prefix when it has none of its own, followed by
  \<^verbatim>\<open>...\<close>. When the cleaned text has a prefix of its own, this is the claim as stated.
\<close>

theorem issue_title_truncation:
  "(length (cleanContent raw) \<le> 50 \<longrightarrow> issueTitle raw = prefixedText raw) \<and>
   (length (cleanContent raw) > 50 \<longrightarrow>
      issueTitle raw =
        (if hasTodoPrefix (cleanContent raw) then [] else ''TODO: '') @
        take 50 (cleanContent raw) @ ''...'') \<and>
   (hasTodoPrefix (cleanContent raw) \<longrightarrow>
      (length (prefixedText raw) \<le> 50 \<longrightarrow> issueTitle raw = prefixedText raw) \<and>
      (length (prefixedText raw) > 50 \<longrightarrow>
         issueTitle raw = take 50 (prefixedText raw) @ ''...''))"
  by (simp add: issueTitle_def prefixedText_def truncated_def Let_def)

section \<open>The file scanner\<close>

text \<open>
  Claim C7. For a file whose lower-cased extension is not in the list, \<^verbatim>\<open>scanFileForTodos\<close>
  returns no finding and has no effect: no request is sent, whatever the snapshot holds for
  the file.
\<close>

theorem unlisted_extension_no_fetch:
  assumes "toLowerCase (extname (name f)) \<notin> set codeExtensions"
  shows "scanFileForTodos getContent f = ([], [])"
  using assms by (simp add: scanFileForTodos_def Let_def)

text \<open>A file whose extension is in the list is fetched.\<close>

lemma listed_extension_fetches:
  assumes "toLowerCase (extname (name f)) \<in> set codeExtensions"
  shows "GetContent (path f) \<in> set (snd (scanFileForTodos getContent f))"
  using assms by (simp add: scanFileForTodos_def Let_def split: response.splits option.splits)

section \<open>The pattern matcher\<close>

lemma matchLine_find:
  "matchLine p n l rs =
     (case List.find (\<lambda>r. test r l) rs of
        None \<Rightarrow> []
      | Some r \<Rightarrow> [\<lparr>file = p, line = n, content = trim l, kind = patternKind r\<rparr>])"
  by (induction rs) auto

lemma todoPatterns_groups:
  "todoPatterns =
     map (\<lambda>opener. marker opener ''TODO'') [''//'', ''/*'', ''#'', ''<!--''] @
     map (\<lambda>opener. marker opener ''FIXME'') [''//'', ''/*'', ''#'', ''<!--''] @
     map (\<lambda>opener. marker opener ''HACK'') [''//'', ''/*'', ''#'', ''<!--'']"
  by (simp add: todoPatterns_def)

lemma patternKind_TODO:
  "opener \<in> set [''//'', ''/*'', ''#'', ''<!--''] \<Longrightarrow> patternKind (marker opener ''TODO'') = ''TODO''"
  by (auto simp: patternKind_def source_def marker_def)

lemma patternKind_FIXME:
  "opener \<in> set [''//'', ''/*'', ''#'', ''<!--''] \<Longrightarrow> patternKind (marker opener ''FIXME'') = ''FIXME''"
  by (auto simp: patternKind_def source_def marker_def)

lemma patternKind_HACK:
  "opener \<in> set [''//'', ''/*'', ''#'', ''<!--''] \<Longrightarrow> patternKind (marker opener ''HACK'') = ''HACK''"
  by (auto simp: patternKind_def source_def marker_def)

lemma startsWith_iff: "startsWith s p \<longleftrightarrow> (\<exists>rest. s = p @ rest)"
  by (induction s p rule: startsWith.induct) auto

lemma str_includes_iff: "str_includes s p \<longleftrightarrow> (\<exists>pre rest. s = pre @ p @ rest)"
proof (induction s)
  case Nil
  then show ?case by auto
next
  case (Cons c cs)
  show ?case
  proof
    assume "str_includes (c # cs) p"
    then consider "startsWith (c # cs) p" | "str_includes cs p" by auto
    then show "\<exists>pre rest. c # cs = pre @ p @ rest"
    proof cases
      case 1
      then obtain rest where "c # cs = [] @ p @ rest" by (auto simp: startsWith_iff)
      then show ?thesis by blast
    next
      case 2
      with Cons obtain pre rest where "cs = pre @ p @ rest" by auto
      then have "c # cs = (c # pre) @ p @ rest" by simp
      then show ?thesis by blast
    qed
  next
    assume "\<exists>pre rest. c # cs = pre @ p @ rest"
    then obtain pre rest where e: "c # cs = pre @ p @ rest" by auto
    show "str_includes (c # cs) p"
    proof (cases pre)
      case Nil
      with e have "startsWith (c # cs) p" by (auto simp: startsWith_iff)
      then show ?thesis by simp
    next
      case (Cons d ds)
      with e have "cs = ds @ p @ rest" by simp
      with Cons.IH have "str_includes cs p" by auto
      then show ?thesis by simp
    qed
  qed
qed

lemma test_iff: "test r l \<longleftrightarrow> (\<exists>pre suf. l = pre @ suf \<and> matchHere r suf)"
proof (induction l)
  case Nil
  then show ?case by simp
next
  case (Cons c cs)
  show ?case
  proof
    assume "test r (c # cs)"
    then consider "matchHere r (c # cs)" | "test r cs" by auto
    then show "\<exists>pre suf. c # cs = pre @ suf \<and> matchHere r suf"
    proof cases
      case 1
      then have "c # cs = [] @ (c # cs) \<and> matchHere r (c # cs)" by simp
      then show ?thesis by blast
    next
      case 2
      with Cons obtain pre suf where "cs = pre @ suf" "matchHere r suf" by auto
      then have "c # cs = (c # pre) @ suf \<and> matchHere r suf" by simp
      then show ?thesis by blast
    qed
  next
    assume "\<exists>pre suf. c # cs = pre @ suf \<and> matchHere r suf"
    then obtain pre suf where e: "c # cs = pre @ suf" "matchHere r suf" by auto
    show "test r (c # cs)"
    proof (cases pre)
      case Nil
      with e have "matchHere r (c # cs)" by simp
      then show ?thesis by simp
    next
      case (Cons d ds)
      with e have "cs = ds @ suf" by simp
      with e Cons.IH have "test r cs" by auto
      then show ?thesis by simp
    qed
  qed
qed

lemma slash_todo_matches: "matchHere (marker ''//'' ''TODO'') (''// TODO'' @ rest)"
  by (simp add: marker_def is_space_def whiteSpace_def)

lemma includes_slash_todo: "str_includes l ''// TODO'' \<Longrightarrow> test (marker ''//'' ''TODO'') l"
proof -
  assume "str_includes l ''// TODO''"
  then obtain pre rest where "l = pre @ ''// TODO'' @ rest" by (auto simp: str_includes_iff)
  with slash_todo_matches [of rest] show ?thesis unfolding test_iff by blast
qed

lemma find_kind:
  "\<forall>x\<in>set xs. K x = a \<Longrightarrow>
     map_option K (List.find P xs) = (if \<exists>x\<in>set xs. P x then Some a else None)"
proof (induction xs)
  case Nil
  then show ?case by simp
next
  case (Cons x xs)
  then have "map_option K (List.find P xs) = (if \<exists>x\<in>set xs. P x then Some a else None)"
    by simp
  moreover have "K x = a" using Cons.prems by simp
  ultimately show ?case by (cases "P x") simp_all
qed

lemma map_option_find_append:
  "map_option K (List.find P (xs @ ys)) =
     (case map_option K (List.find P xs) of
        None \<Rightarrow> map_option K (List.find P ys)
      | Some k \<Rightarrow> Some k)"
  by (induction xs) auto

lemma find_three_groups:
  assumes "\<forall>x\<in>set xs. K x = a" "\<forall>x\<in>set ys. K x = b" "\<forall>x\<in>set zs. K x = c"
  shows "map_option K (List.find P (xs @ ys @ zs)) =
           (if \<exists>x\<in>set xs. P x then Some a
            else if \<exists>x\<in>set ys. P x then Some b
            else if \<exists>x\<in>set zs. P x then Some c
            else None)"
  by (simp add: map_option_find_append find_kind [OF assms(1)] find_kind [OF assms(2)]
      find_kind [OF assms(3)])

lemma scanLine_kind:
  "scanLine p i l =
     (case map_option patternKind (List.find (\<lambda>r. test r l) todoPatterns) of
        None \<Rightarrow> []
      | Some k \<Rightarrow> [\<lparr>file = p, line = i + 1, content = trim l, kind = k\<rparr>])"
  unfolding scanLine_def matchLine_find by (simp split: option.splits)

lemma group_tests:
  "(\<exists>r\<in>set (map (\<lambda>opener. marker opener k) openers). test r l) \<longleftrightarrow>
     (\<exists>opener\<in>set openers. test (marker opener k) l)"
  by (induction openers) auto

lemma kinds_of_patterns:
  "map_option patternKind (List.find (\<lambda>r. test r l) todoPatterns) =
     (if \<exists>opener\<in>set [''//'', ''/*'', ''#'', ''<!--'']. test (marker opener ''TODO'') l
      then Some ''TODO''
      else if \<exists>opener\<in>set [''//'', ''/*'', ''#'', ''<!--'']. test (marker opener ''FIXME'') l
      then Some ''FIXME''
      else if \<exists>opener\<in>set [''//'', ''/*'', ''#'', ''<!--'']. test (marker opener ''HACK'') l
      then Some ''HACK''
      else None)"
proof -
  let ?O = "[''//'', ''/*'', ''#'', ''<!--'']"
  have a: "\<forall>x\<in>set (map (\<lambda>opener. marker opener ''TODO'') ?O). patternKind x = ''TODO''"
    using patternKind_TODO by (simp only: set_map) blast
  have b: "\<forall>x\<in>set (map (\<lambda>opener. marker opener ''FIXME'') ?O). patternKind x = ''FIXME''"
    using patternKind_FIXME by (simp only: set_map) blast
  have c: "\<forall>x\<in>set (map (\<lambda>opener. marker opener ''HACK'') ?O). patternKind x = ''HACK''"
    using patternKind_HACK by (simp only: set_map) blast
  show ?thesis
    unfolding todoPatterns_groups find_three_groups [OF a b c] group_tests ..
qed

lemma any_pattern:
  "(\<exists>r\<in>set todoPatterns. test r l) \<longleftrightarrow>
     (\<exists>opener\<in>set [''//'', ''/*'', ''#'', ''<!--'']. test (marker opener ''TODO'') l) \<or>
     (\<exists>opener\<in>set [''//'', ''/*'', ''#'', ''<!--'']. test (marker opener ''FIXME'') l) \<or>
     (\<exists>opener\<in>set [''//'', ''/*'', ''#'', ''<!--'']. test (marker opener ''HACK'') l)"
  unfolding todoPatterns_groups set_append bex_Un group_tests ..


text \<open>
  Claim C2. The callback that classifies one line pushes at most one finding. When the line
  matches any of the twelve patterns, it pushes exactly one, for that line, with the trimmed
  line as content, and its kind follows the order of the patterns: \<^verbatim>\<open>TODO\<close> when one of the
  four \<^verbatim>\<open>TODO\<close> patterns matches, else \<^verbatim>\<open>FIXME\<close> when one of the four \<^verbatim>\<open>FIXME\<close> patterns
  matches, else \<^verbatim>\<open>HACK\<close>. When no pattern matches, it pushes nothing. In particular a line
  that contains \<^verbatim>\<open>// TODO\<close> is classified as \<^verbatim>\<open>TODO\<close>, whatever else it contains.
\<close>

theorem one_finding_per_line:
  "length (scanLine p i l) \<le> 1 \<and>
   ((\<exists>r\<in>set todoPatterns. test r l) \<longrightarrow>
      scanLine p i l =
        [\<lparr>file = p, line = i + 1, content = trim l,
          kind =
            (if \<exists>opener\<in>set [''//'', ''/*'', ''#'', ''<!--'']. test (marker opener ''TODO'') l
             then ''TODO''
             else if \<exists>opener\<in>set [''//'', ''/*'', ''#'', ''<!--'']. test (marker opener ''FIXME'') l
             then ''FIXME''
             else ''HACK'')\<rparr>]) \<and>
   ((\<forall>r\<in>set todoPatterns. \<not> test r l) \<longrightarrow> scanLine p i l = []) \<and>
   (str_includes l ''// TODO'' \<longrightarrow>
      scanLine p i l = [\<lparr>file = p, line = i + 1, content = trim l, kind = ''TODO''\<rparr>])"
proof -
  let ?O = "[''//'', ''/*'', ''#'', ''<!--'']"
  let ?one = "\<lambda>k. [\<lparr>file = p, line = i + 1, content = trim l, kind = k\<rparr>]"
  define T where "T \<longleftrightarrow> (\<exists>opener\<in>set ?O. test (marker opener ''TODO'') l)"
  define F where "F \<longleftrightarrow> (\<exists>opener\<in>set ?O. test (marker opener ''FIXME'') l)"
  define H where "H \<longleftrightarrow> (\<exists>opener\<in>set ?O. test (marker opener ''HACK'') l)"
  have any: "(\<exists>r\<in>set todoPatterns. test r l) \<longleftrightarrow> T \<or> F \<or> H"
    unfolding T_def F_def H_def by (rule any_pattern)
  have k: "map_option patternKind (List.find (\<lambda>r. test r l) todoPatterns) =
      (if T then Some ''TODO'' else if F then Some ''FIXME'' else if H then Some ''HACK'' else None)"
    unfolding T_def F_def H_def by (rule kinds_of_patterns)
  have s: "scanLine p i l =
      (if T then ?one ''TODO'' else if F then ?one ''FIXME'' else if H then ?one ''HACK'' else [])"
    unfolding scanLine_kind k by simp
  have c1: "length (scanLine p i l) \<le> 1"
    unfolding s by simp
  have c2: "scanLine p i l = ?one (if T then ''TODO'' else if F then ''FIXME'' else ''HACK'')"
    if "\<exists>r\<in>set todoPatterns. test r l"
  proof -
    from that have "T \<or> F \<or> H" unfolding any .
    then show ?thesis unfolding s by auto
  qed
  have c3: "scanLine p i l = []" if "\<forall>r\<in>set todoPatterns. \<not> test r l"
  proof -
    from that have "\<not> (T \<or> F \<or> H)" unfolding any [symmetric] by blast
    then show ?thesis unfolding s by simp
  qed
  have c4: "scanLine p i l = ?one ''TODO''" if "str_includes l ''// TODO''"
  proof -
    from that have "test (marker ''//'' ''TODO'') l" by (rule includes_slash_todo)
    then have T unfolding T_def by simp
    then show ?thesis unfolding s by simp
  qed
  show ?thesis
  proof (intro conjI impI)
    show "length (scanLine p i l) \<le> 1" by (rule c1)
  next
    assume "\<exists>r\<in>set todoPatterns. test r l"
    then show "scanLine p i l =
        [\<lparr>file = p, line = i + 1, content = trim l,
          kind =
            (if \<exists>opener\<in>set ?O. test (marker opener ''TODO'') l
             then ''TODO''
             else if \<exists>opener\<in>set ?O. test (marker opener ''FIXME'') l
             then ''FIXME''
             else ''HACK'')\<rparr>]"
      using c2 unfolding T_def F_def by blast
  next
    assume "\<forall>r\<in>set todoPatterns. \<not> test r l"
    then show "scanLine p i l = []" by (rule c3)
  next
    assume "str_includes l ''// TODO''"
    then show "scanLine p i l = [\<lparr>file = p, line = i + 1, content = trim l, kind = ''TODO''\<rparr>]"
      by (rule c4)
  qed
qed

section \<open>The tree walker\<close>

lemma appendResults_simps:
  "appendResults None b = None"
  "appendResults a None = None"
  "appendResults (Some (t1, e1)) (Some (t2, e2)) = Some (t1 @ t2, e1 @ e2)"
  "appendResults (Some ([], [])) b = b"
  "appendResults a (Some ([], [])) = a"
  by (auto simp: appendResults_def split: option.splits)

lemma appendResults_assoc:
  "appendResults (appendResults a b) c = appendResults a (appendResults b c)"
  by (auto simp: appendResults_def split: option.splits)

lemma appendResults_Some:
  "appendResults a b = Some (todos, events) \<longleftrightarrow>
     (\<exists>t1 e1 t2 e2. a = Some (t1, e1) \<and> b = Some (t2, e2) \<and> todos = t1 @ t2 \<and> events = e1 @ e2)"
  by (auto simp: appendResults_def split: option.splits)

lemma scanForTodos_Cons:
  "scanForTodos n g ex cp (e # rest) =
     appendResults (scanEntry n g ex cp e) (scanForTodos n g ex cp rest)"
  by (simp add: scanEntry_def appendResults_def Let_def
      split: option.splits response.splits nat.splits)

lemma scanForTodos_append:
  "scanForTodos n g ex cp (xs @ ys) =
     appendResults (scanForTodos n g ex cp xs) (scanForTodos n g ex cp ys)"
proof (induction xs)
  case Nil
  show ?case by (simp add: appendResults_simps)
next
  case (Cons x xs)
  show ?case
    unfolding append_Cons scanForTodos_Cons Cons.IH appendResults_assoc ..
qed

lemma scanEntry_excluded:
  "excluded ex (joinPath cp (name e)) \<Longrightarrow> scanEntry n g ex cp e = Some ([], [])"
  by (simp add: scanEntry_def)

lemma scanEntry_file:
  "\<not> excluded ex (joinPath cp (name e)) \<Longrightarrow> itemType e = ''file'' \<Longrightarrow>
     scanEntry n g ex cp e = Some (scanFileForTodos g e)"
  by (simp add: scanEntry_def split: prod.splits)

lemma scanEntry_other:
  "\<not> excluded ex (joinPath cp (name e)) \<Longrightarrow> itemType e \<noteq> ''file'' \<Longrightarrow>
   itemType e \<noteq> ''dir'' \<Longrightarrow> scanEntry n g ex cp e = Some ([], [])"
  by (simp add: scanEntry_def)

lemma scanEntry_dir:
  "\<not> excluded ex (joinPath cp (name e)) \<Longrightarrow> itemType e = ''dir'' \<Longrightarrow>
     scanEntry n g ex cp e =
       (case g (joinPath cp (name e)) of
          Listing dirContents \<Rightarrow>
            (case n of
               0 \<Rightarrow> None
             | Suc d \<Rightarrow>
                 appendResults (Some ([], [GetContent (joinPath cp (name e))]))
                   (scanForTodos d g ex (joinPath cp (name e)) dirContents))
        | FileObject fileType fileText \<Rightarrow>
            Some ([], [GetContent (joinPath cp (name e)),
                       Warning (FailedToScanDirectory (joinPath cp (name e)))])
        | Failure \<Rightarrow>
            Some ([], [GetContent (joinPath cp (name e)),
                       Warning (FailedToScanDirectory (joinPath cp (name e)))]))"
  by (simp add: scanEntry_def appendResults_def Let_def
      split: option.splits response.splits nat.splits)


declare scanForTodos.simps(2) [simp del]

lemma scanEntry_mono_step:
  assumes IH: "\<And>cp cs r. scanForTodos d g ex cp cs = Some r \<Longrightarrow> scanForTodos d' g ex cp cs = Some r"
    and r: "scanEntry (Suc d) g ex cp e = Some r"
  shows "scanEntry (Suc d') g ex cp e = Some r"
proof (cases "excluded ex (joinPath cp (name e))")
  case True
  with r show ?thesis by (simp add: scanEntry_excluded)
next
  case False
  show ?thesis
  proof (cases "itemType e = ''dir''")
    case dir: True
    show ?thesis
    proof (cases "g (joinPath cp (name e))")
      case (Listing dirContents)
      with r False dir obtain sub where
        sub: "scanForTodos d g ex (joinPath cp (name e)) dirContents = Some sub"
        by (auto simp: scanEntry_dir appendResults_def split: option.splits)
      then have "scanForTodos d' g ex (joinPath cp (name e)) dirContents = Some sub" by (rule IH)
      with sub r False dir Listing show ?thesis by (simp add: scanEntry_dir)
    next
      case (FileObject fileType fileText)
      with r False dir show ?thesis by (simp add: scanEntry_dir)
    next
      case Failure
      with r False dir show ?thesis by (simp add: scanEntry_dir)
    qed
  next
    case notdir: False
    show ?thesis
    proof (cases "itemType e = ''file''")
      case True
      with r False show ?thesis by (simp add: scanEntry_file)
    next
      case False
      with r notdir \<open>\<not> excluded ex (joinPath cp (name e))\<close> show ?thesis
        by (simp add: scanEntry_other)
    qed
  qed
qed

lemma scanEntry_zero:
  assumes "scanEntry 0 g ex cp e = Some r"
  shows "scanEntry m g ex cp e = Some r"
proof (cases "excluded ex (joinPath cp (name e))")
  case True
  with assms show ?thesis by (simp add: scanEntry_excluded)
next
  case False
  show ?thesis
  proof (cases "itemType e = ''dir''")
    case True
    with assms False show ?thesis
      by (cases "g (joinPath cp (name e))") (simp_all add: scanEntry_dir)
  next
    case notdir: False
    show ?thesis
    proof (cases "itemType e = ''file''")
      case True
      with assms False show ?thesis by (simp add: scanEntry_file)
    next
      case False
      with assms notdir \<open>\<not> excluded ex (joinPath cp (name e))\<close> show ?thesis
        by (simp add: scanEntry_other)
    qed
  qed
qed

lemma scanForTodos_mono:
  "scanForTodos n g ex cp cs = Some r \<Longrightarrow> n \<le> m \<Longrightarrow> scanForTodos m g ex cp cs = Some r"
proof (induction n arbitrary: m cp cs r)
  case 0
  then show ?case
  proof (induction cs arbitrary: r)
    case Nil
    then show ?case by simp
  next
    case (Cons e rest)
    from Cons.prems(1) obtain a b where
      a: "scanEntry 0 g ex cp e = Some a" and b: "scanForTodos 0 g ex cp rest = Some b"
      and r: "appendResults (Some a) (Some b) = Some r"
      by (auto simp: scanForTodos_Cons appendResults_def split: option.splits)
    from a have "scanEntry m g ex cp e = Some a" by (rule scanEntry_zero)
    moreover from b have "scanForTodos m g ex cp rest = Some b" using Cons.IH by simp
    ultimately show ?case using r by (simp add: scanForTodos_Cons)
  qed
next
  case (Suc d)
  from Suc.prems(2) obtain d' where m: "m = Suc d'" "d \<le> d'" by (cases m) auto
  have step: "scanForTodos d' g ex cp cs = Some r" if "scanForTodos d g ex cp cs = Some r" for cp cs r
    using Suc.IH [OF that m(2)] .
  from Suc.prems(1) show ?case unfolding m(1)
  proof (induction cs arbitrary: r)
    case Nil
    then show ?case by simp
  next
    case (Cons e rest)
    from Cons.prems obtain a b where
      a: "scanEntry (Suc d) g ex cp e = Some a" and b: "scanForTodos (Suc d) g ex cp rest = Some b"
      and r: "appendResults (Some a) (Some b) = Some r"
      by (auto simp: scanForTodos_Cons appendResults_def split: option.splits)
    from step a have "scanEntry (Suc d') g ex cp e = Some a" by (rule scanEntry_mono_step)
    moreover from b have "scanForTodos (Suc d') g ex cp rest = Some b" by (rule Cons.IH)
    ultimately show ?case using r by (simp add: scanForTodos_Cons)
  qed
qed

lemma scanLine_file: "t \<in> set (scanLine p i l) \<Longrightarrow> file t = p \<and> line t = i + 1"
  by (auto simp: scanLine_def matchLine_find split: option.splits)

lemma scanLines_file: "t \<in> set (scanLines p i ls) \<Longrightarrow> file t = p \<and> i < line t"
proof (induction ls arbitrary: i)
  case Nil
  then show ?case by simp
next
  case (Cons l ls)
  from Cons.prems consider "t \<in> set (scanLine p i l)" | "t \<in> set (scanLines p (i + 1) ls)"
    by auto
  then show ?case
  proof cases
    case 1
    then show ?thesis using scanLine_file by fastforce
  next
    case 2
    then have "file t = p \<and> i + 1 < line t" by (rule Cons.IH)
    then show ?thesis by simp
  qed
qed

text \<open>Within a file the findings come in the order of their lines.\<close>

lemma scanLines_sorted: "sorted_wrt (<) (map line (scanLines p i ls))"
proof (induction ls arbitrary: i)
  case Nil
  show ?case by simp
next
  case (Cons l ls)
  have "line a < line b" if "a \<in> set (scanLine p i l)" "b \<in> set (scanLines p (i + 1) ls)" for a b
    using scanLine_file [OF that(1)] scanLines_file [OF that(2)] by simp
  moreover have "sorted_wrt (<) (map line (scanLine p i l))"
    by (simp add: scanLine_def matchLine_find split: option.splits)
  ultimately show ?case using Cons.IH [of "i + 1"] by (auto simp: sorted_wrt_append)
qed

lemma scanFileForTodos_file:
  "t \<in> set (fst (scanFileForTodos g f)) \<Longrightarrow> file t = path f"
  by (auto simp: scanFileForTodos_def Let_def dest: scanLines_file
      split: if_splits response.splits option.splits)

lemma scanFileForTodos_events:
  "ev \<in> set (snd (scanFileForTodos g f)) \<Longrightarrow>
     ev = GetContent (path f) \<or> ev = Warning (FailedToScanFile (path f))"
  by (auto simp: scanFileForTodos_def Let_def split: if_splits response.splits option.splits)

lemma startsWith_includes: "startsWith s (p @ q) \<Longrightarrow> str_includes s p"
proof -
  assume "startsWith s (p @ q)"
  then obtain rest where "s = [] @ p @ (q @ rest)" by (auto simp: startsWith_iff)
  then show ?thesis unfolding str_includes_iff by blast
qed

lemma str_includes_trans: "str_includes s p \<Longrightarrow> str_includes p q \<Longrightarrow> str_includes s q"
proof -
  assume "str_includes s p" "str_includes p q"
  then obtain a b c d where "s = a @ p @ b" "p = c @ q @ d" by (auto simp: str_includes_iff)
  then have "s = (a @ c) @ q @ (d @ b)" by simp
  then show ?thesis unfolding str_includes_iff by blast
qed

lemma excluded_below: "excluded ex p \<Longrightarrow> str_includes s p \<Longrightarrow> excluded ex s"
  by (auto simp: excluded_iff intro: str_includes_trans)

text \<open>
  In a snapshot that names its entries as the contents API does, nothing that the walker
  asks for or reports lies on an excluded path.
\<close>

lemma scan_avoids_excluded:
  assumes c: "consistent g"
  shows "(\<forall>e\<in>set cs. path e = joinPath cp (name e)) \<Longrightarrow>
         scanForTodos n g ex cp cs = Some (todos, events) \<Longrightarrow>
         (\<forall>t\<in>set todos. \<not> excluded ex (file t)) \<and>
         (\<forall>p. GetContent p \<in> set events \<longrightarrow> \<not> excluded ex p)"
proof (induction n arbitrary: cp cs todos events rule: less_induct)
  case (less n)
  from less.prems show ?case
  proof (induction cs arbitrary: todos events)
    case Nil
    then show ?case by simp
  next
    case (Cons e rest)
    let ?itemPath = "joinPath cp (name e)"
    from Cons.prems(2) obtain t1 e1 t2 e2 where
      a: "scanEntry n g ex cp e = Some (t1, e1)" and b: "scanForTodos n g ex cp rest = Some (t2, e2)"
      and r: "todos = t1 @ t2" "events = e1 @ e2"
      unfolding scanForTodos_Cons appendResults_Some by blast
    from Cons.prems(1) have pe: "path e = ?itemPath" and pr: "\<forall>e\<in>set rest. path e = joinPath cp (name e)"
      by simp_all
    from pr b have rest: "(\<forall>t\<in>set t2. \<not> excluded ex (file t)) \<and>
        (\<forall>p. GetContent p \<in> set e2 \<longrightarrow> \<not> excluded ex p)"
      by (rule Cons.IH)
    have entry: "(\<forall>t\<in>set t1. \<not> excluded ex (file t)) \<and>
        (\<forall>p. GetContent p \<in> set e1 \<longrightarrow> \<not> excluded ex p)"
    proof (cases "excluded ex ?itemPath")
      case True
      with a show ?thesis by (simp add: scanEntry_excluded)
    next
      case False
      show ?thesis
      proof (cases "itemType e = ''dir''")
        case dir: True
        show ?thesis
        proof (cases "g ?itemPath")
          case (Listing dirContents)
          with a False dir obtain d st se where
            d: "n = Suc d" and sub: "scanForTodos d g ex ?itemPath dirContents = Some (st, se)"
            and te: "t1 = st" "e1 = GetContent ?itemPath # se"
            by (auto simp: scanEntry_dir appendResults_Some split: nat.splits)
          from c Listing have paths: "\<forall>e\<in>set dirContents. path e = joinPath ?itemPath (name e)"
            unfolding consistent_def by blast
          from d have "d < n" by simp
          from less.IH [OF this paths sub]
          have "(\<forall>t\<in>set st. \<not> excluded ex (file t)) \<and>
              (\<forall>p. GetContent p \<in> set se \<longrightarrow> \<not> excluded ex p)" .
          with te False show ?thesis by auto
        next
          case (FileObject fileType fileText)
          with a False dir show ?thesis by (auto simp: scanEntry_dir)
        next
          case Failure
          with a False dir show ?thesis by (auto simp: scanEntry_dir)
        qed
      next
        case notdir: False
        show ?thesis
        proof (cases "itemType e = ''file''")
          case True
          with a False have f: "scanFileForTodos g e = (t1, e1)" by (simp add: scanEntry_file)
          have "file t = ?itemPath" if "t \<in> set t1" for t
            using scanFileForTodos_file [of t g e] that f pe by simp
          moreover have "p = ?itemPath" if "GetContent p \<in> set e1" for p
            using scanFileForTodos_events [of "GetContent p" g e] that f pe by simp
          ultimately show ?thesis using False by auto
        next
          case False
          with a notdir \<open>\<not> excluded ex ?itemPath\<close> show ?thesis
            by (simp add: scanEntry_other)
        qed
      qed
    qed
    from rest entry r show ?case by auto
  qed
qed

text \<open>
  Claim C3. An entry whose joined path contains an exclusion pattern contributes nothing,
  whatever its type and whatever the snapshot holds below it: no finding and no request, so
  the scan of a listing is the scan of the listing without that entry. And in a snapshot that
  names its entries as the contents API does, a scan of the listing of a directory that
  returns has sent no request for any path \<open>p\<close> that contains an exclusion pattern (it never
  lists such a directory and never fetches such a file), and has no finding from \<open>p\<close> or
  from a path below \<open>p\<close>.
\<close>

theorem excluded_paths_are_skipped:
  "(excluded excl (joinPath cp (name entry)) \<longrightarrow>
      scanEntry depth getContent excl cp entry = Some ([], []) \<and>
      scanForTodos depth getContent excl cp (pre @ entry # post) =
        scanForTodos depth getContent excl cp (pre @ post)) \<and>
   (consistent getContent \<and> getContent cp = Listing contents \<and>
    scanForTodos depth getContent excl cp contents = Some (todos, events) \<and>
    excluded excl p \<longrightarrow>
      GetContent p \<notin> set events \<and>
      (\<forall>t\<in>set todos. file t \<noteq> p \<and> \<not> startsWith (file t) (p @ ''/'')))"
proof (intro conjI impI)
  assume x: "excluded excl (joinPath cp (name entry))"
  then show e: "scanEntry depth getContent excl cp entry = Some ([], [])"
    by (rule scanEntry_excluded)
  show "scanForTodos depth getContent excl cp (pre @ entry # post) =
        scanForTodos depth getContent excl cp (pre @ post)"
    unfolding scanForTodos_append scanForTodos_Cons e appendResults_simps ..
next
  assume h: "consistent getContent \<and> getContent cp = Listing contents \<and>
    scanForTodos depth getContent excl cp contents = Some (todos, events) \<and> excluded excl p"
  then have "\<forall>e\<in>set contents. path e = joinPath cp (name e)"
    unfolding consistent_def by blast
  with h have inv: "(\<forall>t\<in>set todos. \<not> excluded excl (file t)) \<and>
      (\<forall>q. GetContent q \<in> set events \<longrightarrow> \<not> excluded excl q)"
    using scan_avoids_excluded [of getContent contents cp depth excl todos events] by blast
  with h show "GetContent p \<notin> set events" by blast
  show "\<forall>t\<in>set todos. file t \<noteq> p \<and> \<not> startsWith (file t) (p @ ''/'')"
  proof
    fix t assume t: "t \<in> set todos"
    with inv have n: "\<not> excluded excl (file t)" by blast
    have "file t \<noteq> p" using n h by auto
    moreover have "\<not> startsWith (file t) (p @ ''/'')"
    proof
      assume "startsWith (file t) (p @ ''/'')"
      then have "str_includes (file t) p" by (rule startsWith_includes)
      with h have "excluded excl (file t)" using excluded_below by blast
      with n show False ..
    qed
    ultimately show "file t \<noteq> p \<and> \<not> startsWith (file t) (p @ ''/'')" ..
  qed
qed

section \<open>Decimal thresholds\<close>

lemma digit_cases: "d < 10 \<Longrightarrow> d \<in> {0, 1, 2, 3, 4, 5, 6, 7, 8, 9::nat}"
  by auto

lemma digitChar_digit: "d < 10 \<Longrightarrow> digitChar d \<in> set ''0123456789''"
  using digit_cases [of d] by (auto simp: digitChar_def)

lemma digitValue_digitChar: "d < 10 \<Longrightarrow> digitValue (digitChar d) = d"
  using digit_cases [of d] by (auto simp: digitChar_def digitValue_def digitTable_def)

lemma toString_digits: "c \<in> set (toString n) \<Longrightarrow> c \<in> set ''0123456789''"
proof (induction n arbitrary: c rule: toString.induct)
  case (1 n)
  show ?case
  proof (cases "n < 10")
    case True
    with "1.prems" have "c = digitChar n" by (subst (asm) toString.simps) simp
    with True show ?thesis using digitChar_digit by blast
  next
    case False
    with "1.prems" have "c \<in> set (toString (n div 10)) \<or> c = digitChar (n mod 10)"
      by (subst (asm) toString.simps) auto
    then show ?thesis
    proof
      assume "c \<in> set (toString (n div 10))"
      with False show ?thesis by (rule "1.IH")
    next
      assume "c = digitChar (n mod 10)"
      then show ?thesis using digitChar_digit [of "n mod 10"] by simp
    qed
  qed
qed

lemma toString_nonempty: "toString n \<noteq> []"
  by (subst toString.simps) simp

lemma digitsValue_snoc: "digitsValue r (z @ [c]) = digitsValue r z * r + digitValue c"
  by (simp add: digitsValue_def)

lemma digitsValue_toString: "digitsValue 10 (toString n) = n"
proof (induction n rule: toString.induct)
  case (1 n)
  show ?case
  proof (cases "n < 10")
    case True
    then show ?thesis
      by (subst toString.simps) (simp add: digitsValue_def digitValue_digitChar)
  next
    case False
    then have "digitsValue 10 (toString (n div 10)) = n div 10" by (rule "1.IH")
    with False show ?thesis
      by (subst toString.simps) (simp add: digitsValue_snoc digitValue_digitChar)
  qed
qed

lemma digit_not_space:
  assumes "c \<in> set ''0123456789''"
  shows "\<not> is_space c"
proof -
  have "\<forall>c\<in>set ''0123456789''. \<not> is_space c"
    by (simp add: is_space_def whiteSpace_def)
  then show ?thesis using assms by (rule bspec)
qed

lemma digit_isDigitOf:
  assumes "c \<in> set ''0123456789''"
  shows "isDigitOf 10 c"
proof -
  have "\<forall>c\<in>set ''0123456789''. isDigitOf 10 c"
    by (simp add: isDigitOf_def digitValue_def digitTable_def)
  then show ?thesis using assms by (rule bspec)
qed

lemma dropWhile_no_space: "\<forall>c\<in>set s. \<not> is_space c \<Longrightarrow> dropWhile is_space s = s"
proof (cases s)
  case Nil
  then show ?thesis by simp
next
  case (Cons c cs)
  assume "\<forall>c\<in>set s. \<not> is_space c"
  with Cons have "\<not> is_space c" by simp
  with Cons show ?thesis by simp
qed

lemma trim_no_space:
  assumes "\<forall>c\<in>set s. \<not> is_space c"
  shows "trim s = s"
proof -
  have "dropWhile is_space s = s" using assms by (rule dropWhile_no_space)
  moreover have "dropWhile is_space (rev s) = rev s"
    by (rule dropWhile_no_space) (simp add: assms)
  ultimately show ?thesis by (simp add: trim_def trimStart_def trimEnd_def)
qed

lemma startsWith_set: "startsWith s p \<Longrightarrow> set p \<subseteq> set s"
  by (induction s p rule: startsWith.induct) auto

lemma parseInt_toString: "parseInt (toString n) = Some (int n)"
proof -
  let ?s = "toString n"
  have d: "\<forall>c\<in>set ?s. c \<in> set ''0123456789''" using toString_digits by blast
  then have ns: "\<forall>c\<in>set ?s. \<not> is_space c" using digit_not_space by blast
  have ts: "trimStart ?s = ?s"
    unfolding trimStart_def using ns by (rule dropWhile_no_space)
  have nd: "\<not> startsWith ?s p" if "c \<in> set p" "c \<notin> set ''0123456789''" for p c
  proof
    assume "startsWith ?s p"
    then have "set p \<subseteq> set ?s" by (rule startsWith_set)
    with that(1) have "c \<in> set ?s" by blast
    with d that(2) show False by blast
  qed
  have m: "\<not> startsWith ?s ''-''" "\<not> startsWith ?s ''+''" "\<not> startsWith ?s ''0x''"
    "\<not> startsWith ?s ''0X''"
    by (rule nd [of "CHR ''-''"], simp, simp)
       (rule nd [of "CHR ''+''"], simp, simp,
        rule nd [of "CHR ''x''"], simp, simp,
        rule nd [of "CHR ''X''"], simp, simp)
  have tw: "takeWhile (isDigitOf 10) ?s = ?s"
    using d digit_isDigitOf by (simp add: takeWhile_eq_all_conv)
  have "parseInt ?s =
      (let s = ?s;
           neg = startsWith s ''-'';
           s1 = (if startsWith s ''-'' \<or> startsWith s ''+'' then drop 1 s else s);
           hex = (startsWith s1 ''0x'' \<or> startsWith s1 ''0X'');
           radix = (if hex then 16 else 10);
           s2 = (if hex then drop 2 s1 else s1);
           z = takeWhile (isDigitOf radix) s2
       in if z = [] then None
          else Some ((if neg then - 1 else 1) * int (digitsValue radix z)))"
    unfolding parseInt_def ts ..
  also have "\<dots> = Some (int n)"
    unfolding Let_def using m by (simp add: tw toString_nonempty digitsValue_toString)
  finally show ?thesis .
qed

text \<open>
  A threshold input that is the decimal numeral of \<open>t\<close> is read as \<open>t\<close>, unless \<open>t\<close> is zero.
\<close>

lemma parseThreshold_toString:
  "parseThreshold (toString t) = (if t = 0 then 10 else int t)"
proof -
  have "\<forall>c\<in>set (toString t). \<not> is_space c" using toString_digits digit_not_space by blast
  then have "getInput (toString t) = toString t" unfolding getInput_def by (rule trim_no_space)
  then show ?thesis by (simp add: parseThreshold_def parseInt_toString)
qed

section \<open>Runs that return\<close>

lemma scanEntry_returns:
  assumes IH: "\<And>dirContents d. n = Suc d \<Longrightarrow> g (joinPath cp (name e)) = Listing dirContents \<Longrightarrow>
      itemType e = ''dir'' \<Longrightarrow> \<exists>r. scanForTodos d g ex (joinPath cp (name e)) dirContents = Some r"
    and pos: "itemType e = ''dir'' \<Longrightarrow> 0 < n"
  shows "\<exists>r. scanEntry n g ex cp e = Some r"
proof (cases "excluded ex (joinPath cp (name e))")
  case True
  then show ?thesis by (simp add: scanEntry_excluded)
next
  case False
  show ?thesis
  proof (cases "itemType e = ''dir''")
    case dir: True
    with pos obtain d where d: "n = Suc d" by (cases n) auto
    show ?thesis
    proof (cases "g (joinPath cp (name e))")
      case (Listing dirContents)
      with IH d dir obtain r where
        "scanForTodos d g ex (joinPath cp (name e)) dirContents = Some r" by blast
      with False dir Listing d show ?thesis
        by (cases r) (simp add: scanEntry_dir appendResults_simps)
    next
      case (FileObject fileType fileText)
      with False dir show ?thesis by (simp add: scanEntry_dir)
    next
      case Failure
      with False dir show ?thesis by (simp add: scanEntry_dir)
    qed
  next
    case notdir: False
    show ?thesis
    proof (cases "itemType e = ''file''")
      case True
      with False show ?thesis by (simp add: scanEntry_file)
    next
      case False
      with notdir \<open>\<not> excluded ex (joinPath cp (name e))\<close> show ?thesis
        by (simp add: scanEntry_other)
    qed
  qed
qed

lemma scan_returns_below:
  assumes rk: "ranked rank g"
  shows "(\<forall>e\<in>set cs. itemType e = ''dir'' \<longrightarrow> rank (joinPath cp (name e)) < n) \<Longrightarrow>
         \<exists>r. scanForTodos n g ex cp cs = Some r"
proof (induction n arbitrary: cp cs rule: less_induct)
  case (less n)
  from less.prems show ?case
  proof (induction cs)
    case Nil
    show ?case by simp
  next
    case (Cons e rest)
    then obtain b where b: "scanForTodos n g ex cp rest = Some b" by auto
    have "\<exists>r. scanEntry n g ex cp e = Some r"
    proof (rule scanEntry_returns)
      fix dirContents d
      assume d: "n = Suc d" and l: "g (joinPath cp (name e)) = Listing dirContents"
        and dir: "itemType e = ''dir''"
      from Cons.prems dir d have "rank (joinPath cp (name e)) \<le> d" by simp
      with rk l have "\<forall>e'\<in>set dirContents. itemType e' = ''dir'' \<longrightarrow>
          rank (joinPath (joinPath cp (name e)) (name e')) < d"
        unfolding ranked_def by fastforce
      moreover have "d < n" using d by simp
      ultimately show "\<exists>r. scanForTodos d g ex (joinPath cp (name e)) dirContents = Some r"
        using less.IH by blast
    next
      assume "itemType e = ''dir''"
      with Cons.prems show "0 < n" by auto
    qed
    then obtain a where "scanEntry n g ex cp e = Some a" by blast
    with b show ?case by (cases a; cases b) (simp add: scanForTodos_Cons appendResults_simps)
  qed
qed

text \<open>
  In a snapshot whose directories nest finitely, the scan of the listing of a directory
  returns when the walker may descend as many levels as the rank of the directory.
\<close>

lemma scan_returns:
  assumes "ranked rank g" "g cp = Listing contents"
  shows "\<exists>todos events. scanForTodos (rank cp) g ex cp contents = Some (todos, events)"
proof -
  from assms have "\<forall>e\<in>set contents. itemType e = ''dir'' \<longrightarrow> rank (joinPath cp (name e)) < rank cp"
    unfolding ranked_def by blast
  with assms(1) have "\<exists>r. scanForTodos (rank cp) g ex cp contents = Some r"
    by (rule scan_returns_below)
  then show ?thesis by auto
qed

text \<open>Such a run returns, and it fails exactly when the handler of \<^verbatim>\<open>run\<close> caught an
  exception or the count exceeds the threshold.\<close>

lemma run_returns:
  assumes "ranked rank g"
  shows "\<exists>st1 events. run (rank []) inp ctx g tr st = Some (st1, events)"
proof (cases "g []")
  case (Listing contents)
  with assms obtain todos events where
    "scanForTodos (rank []) g (parseExcludePatterns (exclude_patterns inp)) [] contents =
       Some (todos, events)"
    using scan_returns by blast
  with Listing show ?thesis by (simp add: run_def split: prod.splits)
next
  case (FileObject fileType fileText)
  then show ?thesis by (simp add: run_def)
next
  case Failure
  then show ?thesis by (simp add: run_def)
qed

lemma exampleSnapshot_ranked:
  "ranked (\<lambda>p. if p = [] then 1 else 0) exampleSnapshot"
  unfolding ranked_def exampleSnapshot_def by (auto simp: joinPath_def split: if_splits)


text \<open>The walker only sends requests and warns.\<close>

lemma scan_events:
  "scanForTodos n g ex cp cs = Some (todos, events) \<Longrightarrow>
     \<forall>ev\<in>set events. (\<exists>p. ev = GetContent p) \<or> (\<exists>w. ev = Warning w)"
proof (induction n arbitrary: cp cs todos events rule: less_induct)
  case (less n)
  from less.prems show ?case
  proof (induction cs arbitrary: todos events)
    case Nil
    then show ?case by simp
  next
    case (Cons e rest)
    let ?itemPath = "joinPath cp (name e)"
    let ?ok = "\<lambda>evs. \<forall>ev\<in>set evs. (\<exists>p. ev = GetContent p) \<or> (\<exists>w. ev = Warning w)"
    from Cons.prems obtain t1 e1 t2 e2 where
      a: "scanEntry n g ex cp e = Some (t1, e1)" and b: "scanForTodos n g ex cp rest = Some (t2, e2)"
      and r: "events = e1 @ e2"
      unfolding scanForTodos_Cons appendResults_Some by blast
    from b have rest: "?ok e2" by (rule Cons.IH)
    have entry: "?ok e1"
    proof (cases "excluded ex ?itemPath")
      case True
      with a show ?thesis by (simp add: scanEntry_excluded)
    next
      case False
      show ?thesis
      proof (cases "itemType e = ''dir''")
        case dir: True
        show ?thesis
        proof (cases "g ?itemPath")
          case (Listing dirContents)
          with a False dir obtain d st se where
            d: "n = Suc d" and sub: "scanForTodos d g ex ?itemPath dirContents = Some (st, se)"
            and te: "e1 = GetContent ?itemPath # se"
            by (auto simp: scanEntry_dir appendResults_Some split: nat.splits)
          from d have "d < n" by simp
          from less.IH [OF this sub] have "?ok se" .
          with te show ?thesis by simp
        next
          case (FileObject fileType fileText)
          with a False dir show ?thesis by (auto simp: scanEntry_dir)
        next
          case Failure
          with a False dir show ?thesis by (auto simp: scanEntry_dir)
        qed
      next
        case notdir: False
        show ?thesis
        proof (cases "itemType e = ''file''")
          case True
          with a False have f: "scanFileForTodos g e = (t1, e1)" by (simp add: scanEntry_file)
          show ?thesis
          proof
            fix ev assume "ev \<in> set e1"
            with f have "ev \<in> set (snd (scanFileForTodos g e))" by simp
            then show "(\<exists>p. ev = GetContent p) \<or> (\<exists>w. ev = Warning w)"
              using scanFileForTodos_events by blast
          qed
        next
          case False
          with a notdir \<open>\<not> excluded ex ?itemPath\<close> show ?thesis
            by (simp add: scanEntry_other)
        qed
      qed
    qed
    from rest entry r show ?case by auto
  qed
qed

lemma scan_not_failed:
  assumes "scanForTodos n g ex cp cs = Some (todos, events)"
  shows "\<not> failed events"
proof -
  from assms have "\<forall>ev\<in>set events. (\<exists>p. ev = GetContent p) \<or> (\<exists>w. ev = Warning w)"
    by (rule scan_events)
  then show ?thesis unfolding failed_def list_ex_iff by fastforce
qed

text \<open>
  A run whose scan completes fails exactly when the count of findings exceeds the threshold
  that was read from the input.
\<close>

lemma run_failed_iff:
  assumes tok: "getInput (token inp) \<noteq> []"
    and root: "getContent [] = Listing contents"
    and scan: "scanForTodos depth getContent (parseExcludePatterns (exclude_patterns inp)) []
                 contents = Some (todos, scanEvents)"
    and run: "run depth inp ctx getContent tr st = Some (st1, events)"
  shows "failed events \<longleftrightarrow> int (length todos) > parseThreshold (threshold inp)"
proof -
  from run tok root scan have "events = GetContent [] # scanEvents @ snd (report inp ctx tr st todos)"
    by (auto simp: run_def split: prod.splits)
  then show ?thesis
    using scan_not_failed [OF scan] report_failed_iff [of inp ctx tr st todos]
    by (simp add: failed_append failed_Cons)
qed

text \<open>
  So with the decimal numeral of a threshold that is not zero as input, such a run fails
  exactly when there are more findings than the threshold; a count equal to it passes.
\<close>

lemma run_failed_decimal:
  assumes "0 < t" "threshold inp = toString t"
    and "getInput (token inp) \<noteq> []"
    and "getContent [] = Listing contents"
    and "scanForTodos depth getContent (parseExcludePatterns (exclude_patterns inp)) []
           contents = Some (todos, scanEvents)"
    and "run depth inp ctx getContent tr st = Some (st1, events)"
  shows "failed events \<longleftrightarrow> length todos > t"
  using run_failed_iff [OF assms(3-6)] assms(1,2) by (simp add: parseThreshold_toString)

text \<open>The findings of a file come in the order of their lines.\<close>

lemma scanFileForTodos_sorted: "sorted_wrt (<) (map line (fst (scanFileForTodos g f)))"
  by (simp add: scanFileForTodos_def Let_def scanLines_sorted
      split: response.splits option.splits)

text \<open>
  Claim C8. The scan reads the snapshot and the configuration, and nothing else: it is a
  function of the two, and of the number of levels the walker may descend. Whenever two runs
  of the walker on the same snapshot, exclusion patterns and listing return, whatever their
  numbers of levels, they return the same findings in the same order, and have sent the same
  requests. And on a snapshot that is a tree (its directories nest finitely), two runs on the
  listing of a directory that may descend as many levels as the rank of the directory do
  return, with the same result. The order is that of the traversal: the result for a listing
  is the result for its first entries followed by the result for the entries after them. And
  within a file it is that of the lines: the line numbers of its findings increase.
\<close>

theorem scan_deterministic:
  "(scanForTodos depth1 getContent excl cp contents = Some (todos1, events1) \<and>
    scanForTodos depth2 getContent excl cp contents = Some (todos2, events2) \<longrightarrow>
      todos1 = todos2 \<and> events1 = events2) \<and>
   (ranked rank getContent \<and> getContent cp = Listing contents \<and>
    rank cp \<le> depth1 \<and> rank cp \<le> depth2 \<longrightarrow>
      (\<exists>todos events.
         scanForTodos depth1 getContent excl cp contents = Some (todos, events) \<and>
         scanForTodos depth2 getContent excl cp contents = Some (todos, events))) \<and>
   scanForTodos depth1 getContent excl cp (contents @ further) =
     appendResults (scanForTodos depth1 getContent excl cp contents)
       (scanForTodos depth1 getContent excl cp further) \<and>
   sorted_wrt (<) (map line (fst (scanFileForTodos getContent entry)))"
proof (intro conjI impI)
  assume h: "scanForTodos depth1 getContent excl cp contents = Some (todos1, events1) \<and>
    scanForTodos depth2 getContent excl cp contents = Some (todos2, events2)"
  then have "scanForTodos (max depth1 depth2) getContent excl cp contents =
      Some (todos1, events1)"
    using scanForTodos_mono [of depth1 getContent excl cp contents _ "max depth1 depth2"] by simp
  moreover from h have "scanForTodos (max depth1 depth2) getContent excl cp contents =
      Some (todos2, events2)"
    using scanForTodos_mono [of depth2 getContent excl cp contents _ "max depth1 depth2"] by simp
  ultimately show "todos1 = todos2" and "events1 = events2" by simp_all
next
  assume h: "ranked rank getContent \<and> getContent cp = Listing contents \<and>
    rank cp \<le> depth1 \<and> rank cp \<le> depth2"
  then obtain todos events where
    r: "scanForTodos (rank cp) getContent excl cp contents = Some (todos, events)"
    using scan_returns [of rank getContent cp contents excl] by blast
  from r h have "scanForTodos depth1 getContent excl cp contents = Some (todos, events)"
    using scanForTodos_mono by blast
  moreover from r h have "scanForTodos depth2 getContent excl cp contents = Some (todos, events)"
    using scanForTodos_mono by blast
  ultimately show "\<exists>todos events.
         scanForTodos depth1 getContent excl cp contents = Some (todos, events) \<and>
         scanForTodos depth2 getContent excl cp contents = Some (todos, events)"
    by blast
next
  show "scanForTodos depth1 getContent excl cp (contents @ further) =
     appendResults (scanForTodos depth1 getContent excl cp contents)
       (scanForTodos depth1 getContent excl cp further)"
    by (rule scanForTodos_append)
next
  show "sorted_wrt (<) (map line (fst (scanFileForTodos getContent entry)))"
    by (rule scanFileForTodos_sorted)
qed

section \<open>Instances\<close>


theorem empty_body_never_matches_witness:
  "body titleOnlyIssue = None \<and>
   str_includes (toLowerCase (title titleOnlyIssue)) ''todo'' \<and>
   \<not> contentMatch exampleTodo titleOnlyIssue \<and>
   \<not> fileMatch exampleTodo titleOnlyIssue \<and>
   fst (findExistingIssue listTracker pushContext [titleOnlyIssue] exampleTodo) \<noteq>
     Some titleOnlyIssue"
proof -
  have b: "body titleOnlyIssue = None" by (simp add: titleOnlyIssue_def)
  have t: "str_includes (toLowerCase (title titleOnlyIssue)) ''todo''" by code_simp
  show ?thesis
    using b t empty_body_never_matches [of titleOnlyIssue exampleTodo listTracker pushContext
        "[titleOnlyIssue]"]
    by simp
qed

theorem content_search_hit_is_linked_witness:
  "searchIssues listTracker [pathIssue, textIssue] (searchQuery pushContext (trim (content exampleTodo))) =
     (Some [pathIssue, textIssue], [pathIssue, textIssue]) \<and>
   textIssue \<in> set [pathIssue, textIssue] \<and>
   body textIssue = Some ''found: // TODO: fix'' \<and>
   str_includes ''found: // TODO: fix'' (trim (content exampleTodo)) \<and>
   findExistingIssue listTracker pushContext [pathIssue, textIssue] exampleTodo =
     (Some pathIssue, [pathIssue, textIssue],
      [SearchIssues (searchQuery pushContext (trim (content exampleTodo)))]) \<and>
   processLoop listTracker pushContext [''todo''] [pathIssue, textIssue] (0, 0) [exampleTodo] =
     ((0, 1), [pathIssue, textIssue],
      [SearchIssues (searchQuery pushContext (trim (content exampleTodo)))])"
proof -
  have s: "searchIssues listTracker [pathIssue, textIssue]
             (searchQuery pushContext (trim (content exampleTodo))) =
           (Some [pathIssue, textIssue], [pathIssue, textIssue])"
    by (simp add: listTracker_def)
  have m: "textIssue \<in> set [pathIssue, textIssue]" by simp
  have b: "body textIssue = Some ''found: // TODO: fix''" by (simp add: textIssue_def)
  have n: "''found: // TODO: fix'' \<noteq> []" by simp
  have i: "str_includes ''found: // TODO: fix'' (trim (content exampleTodo))" by code_simp
  have p: "pathIssue \<noteq> textIssue" by (simp add: pathIssue_def textIssue_def)
  have cm: "contentMatch exampleTodo pathIssue" by code_simp
  from content_search_hit_is_linked [OF s m b n i, of "[''todo'']" 0 0 "[]"]
  obtain j pre post where
    sp: "[pathIssue, textIssue] = pre @ j # post" "\<forall>k\<in>set pre. \<not> contentMatch exampleTodo k"
    and r: "findExistingIssue listTracker pushContext [pathIssue, textIssue] exampleTodo =
           (Some j, [pathIssue, textIssue],
            [SearchIssues (searchQuery pushContext (trim (content exampleTodo)))])"
       "processLoop listTracker pushContext [''todo''] [pathIssue, textIssue] (0, 0) [exampleTodo] =
        (case processLoop listTracker pushContext [''todo''] [pathIssue, textIssue] (0, 0 + 1) [] of
           (counters, st3, events3) \<Rightarrow>
             (counters, st3, SearchIssues (searchQuery pushContext (trim (content exampleTodo))) # events3))"
    by blast
  have "j = pathIssue"
  proof (cases pre)
    case Nil
    with sp show ?thesis by simp
  next
    case (Cons k ks)
    with sp have "k = pathIssue" by simp
    with sp(2) Cons cm show ?thesis by simp
  qed
  with r s m b i show ?thesis by simp
qed

theorem issue_title_truncation_witness:
  "length (cleanContent ''// TODO: fix'') \<le> 50 \<and>
   issueTitle ''// TODO: fix'' = ''TODO: fix'' \<and>
   hasTodoPrefix (cleanContent ''// TODO: fix'') \<and>
   length (cleanContent ''# todo handle the empty list, the singleton list and the list of many items'') > 50 \<and>
   issueTitle ''# todo handle the empty list, the singleton list and the list of many items'' =
     ''TODO: todo handle the empty list, the singleton list and...'' \<and>
   hasTodoPrefix (cleanContent ''/* FIXME: the retry loop never backs off and hammers the upstream service */'') \<and>
   length (prefixedText ''/* FIXME: the retry loop never backs off and hammers the upstream service */'') > 50 \<and>
   issueTitle ''/* FIXME: the retry loop never backs off and hammers the upstream service */'' =
     ''FIXME: the retry loop never backs off and hammers ...''"
proof -
  have a: "length (cleanContent ''// TODO: fix'') \<le> 50" by code_simp
  have a1: "prefixedText ''// TODO: fix'' = ''TODO: fix''" by code_simp
  have a2: "hasTodoPrefix (cleanContent ''// TODO: fix'')" by code_simp
  have b: "length (cleanContent ''# todo handle the empty list, the singleton list and the list of many items'') > 50"
    by code_simp
  have b1: "(if hasTodoPrefix (cleanContent ''# todo handle the empty list, the singleton list and the list of many items'') then [] else ''TODO: '') @
        take 50 (cleanContent ''# todo handle the empty list, the singleton list and the list of many items'') @ ''...'' =
        ''TODO: todo handle the empty list, the singleton list and...''" by code_simp
  have c: "hasTodoPrefix (cleanContent ''/* FIXME: the retry loop never backs off and hammers the upstream service */'')"
    by code_simp
  have c1: "length (prefixedText ''/* FIXME: the retry loop never backs off and hammers the upstream service */'') > 50"
    by code_simp
  have c2: "take 50 (prefixedText ''/* FIXME: the retry loop never backs off and hammers the upstream service */'') @ ''...'' =
     ''FIXME: the retry loop never backs off and hammers ...''" by code_simp
  show ?thesis
    using a a1 a2 b b1 c c1 c2
      issue_title_truncation [of "''// TODO: fix''"]
      issue_title_truncation [of "''# todo handle the empty list, the singleton list and the list of many items''"]
      issue_title_truncation [of "''/* FIXME: the retry loop never backs off and hammers the upstream service */''"]
    by simp
qed

theorem unlisted_extension_no_fetch_witness:
  "toLowerCase (extname ''logo.PNG'') = ''.png'' \<and>
   ''.png'' \<notin> set codeExtensions \<and>
   scanFileForTodos exampleSnapshot
     \<lparr>name = ''logo.PNG'', path = ''assets/logo.PNG'', itemType = ''file''\<rparr> = ([], [])"
proof -
  have e: "toLowerCase (extname ''logo.PNG'') = ''.png''" by code_simp
  have n: "''.png'' \<notin> set codeExtensions" by code_simp
  have "toLowerCase (extname (name \<lparr>name = ''logo.PNG'', path = ''assets/logo.PNG'', itemType = ''file''\<rparr>))
      \<notin> set codeExtensions"
    using e n by simp
  from unlisted_extension_no_fetch [OF this, of exampleSnapshot] e n show ?thesis by simp
qed

theorem one_finding_per_line_witness:
  "test (marker ''//'' ''TODO'') ''cleanup(); // TODO: drop this HACK'' \<and>
   str_includes ''cleanup(); // TODO: drop this HACK'' ''// TODO'' \<and>
   str_includes ''cleanup(); // TODO: drop this HACK'' ''HACK'' \<and>
   scanLine ''src/a.js'' 6 ''cleanup(); // TODO: drop this HACK'' =
     [\<lparr>file = ''src/a.js'', line = 7, content = ''cleanup(); // TODO: drop this HACK'',
       kind = ''TODO''\<rparr>] \<and>
   list_all (\<lambda>r. \<not> test r ''const a = 1;'') todoPatterns \<and>
   scanLine ''src/a.js'' 0 ''const a = 1;'' = [] \<and>
   test (marker ''#'' ''HACK'') ''x = 1  #hack, then <!-- FixMe -->'' \<and>
   scanLine ''notes.md'' 1 ''x = 1  #hack, then <!-- FixMe -->'' =
     [\<lparr>file = ''notes.md'', line = 2, content = ''x = 1  #hack, then <!-- FixMe -->'',
       kind = ''FIXME''\<rparr>]"
proof -
  have a: "str_includes ''cleanup(); // TODO: drop this HACK'' ''// TODO''" by code_simp
  have a1: "test (marker ''//'' ''TODO'') ''cleanup(); // TODO: drop this HACK''" by code_simp
  have a2: "str_includes ''cleanup(); // TODO: drop this HACK'' ''HACK''" by code_simp
  have a3: "trim ''cleanup(); // TODO: drop this HACK'' = ''cleanup(); // TODO: drop this HACK''"
    by code_simp
  have b: "list_all (\<lambda>r. \<not> test r ''const a = 1;'') todoPatterns" by code_simp
  have c: "test (marker ''#'' ''HACK'') ''x = 1  #hack, then <!-- FixMe -->''" by code_simp
  have c0: "\<exists>r\<in>set todoPatterns. test r ''x = 1  #hack, then <!-- FixMe -->''"
    using c by (auto simp: todoPatterns_def)
  have c1: "\<not> (\<exists>opener\<in>set [''//'', ''/*'', ''#'', ''<!--''].
               test (marker opener ''TODO'') ''x = 1  #hack, then <!-- FixMe -->'')"
    by code_simp
  have c2: "\<exists>opener\<in>set [''//'', ''/*'', ''#'', ''<!--''].
               test (marker opener ''FIXME'') ''x = 1  #hack, then <!-- FixMe -->''"
    by code_simp
  have c3: "trim ''x = 1  #hack, then <!-- FixMe -->'' = ''x = 1  #hack, then <!-- FixMe -->''"
    by code_simp
  from one_finding_per_line [of "''src/a.js''" 6 "''cleanup(); // TODO: drop this HACK''"] a a3
  have r1: "scanLine ''src/a.js'' 6 ''cleanup(); // TODO: drop this HACK'' =
     [\<lparr>file = ''src/a.js'', line = 7, content = ''cleanup(); // TODO: drop this HACK'',
       kind = ''TODO''\<rparr>]" by simp
  from one_finding_per_line [of "''src/a.js''" 0 "''const a = 1;''"] b
  have r2: "scanLine ''src/a.js'' 0 ''const a = 1;'' = []" unfolding list_all_iff by blast
  from one_finding_per_line [of "''notes.md''" 1 "''x = 1  #hack, then <!-- FixMe -->''"] c0
  have "scanLine ''notes.md'' 1 ''x = 1  #hack, then <!-- FixMe -->'' =
        [\<lparr>file = ''notes.md'', line = 1 + 1, content = trim ''x = 1  #hack, then <!-- FixMe -->'',
          kind =
            (if \<exists>opener\<in>set [''//'', ''/*'', ''#'', ''<!--'']. test (marker opener ''TODO'') ''x = 1  #hack, then <!-- FixMe -->''
             then ''TODO''
             else if \<exists>opener\<in>set [''//'', ''/*'', ''#'', ''<!--'']. test (marker opener ''FIXME'') ''x = 1  #hack, then <!-- FixMe -->''
             then ''FIXME''
             else ''HACK'')\<rparr>]" by blast
  then have r3: "scanLine ''notes.md'' 1 ''x = 1  #hack, then <!-- FixMe -->'' =
     [\<lparr>file = ''notes.md'', line = 2, content = ''x = 1  #hack, then <!-- FixMe -->'',
       kind = ''FIXME''\<rparr>]"
    unfolding c3 if_not_P [OF c1] if_P [OF c2] by simp
  from a a1 a2 b c r1 r2 r3 show ?thesis by blast
qed

theorem excluded_paths_are_skipped_witness:
  "excluded (parseExcludePatterns ''node_modules,dist,build,.git'') ''node_modules'' \<and>
   scanEntry 1 exampleSnapshot (parseExcludePatterns ''node_modules,dist,build,.git'') []
     \<lparr>name = ''node_modules'', path = ''node_modules'', itemType = ''dir''\<rparr> = Some ([], []) \<and>
   scanForTodos 1 exampleSnapshot (parseExcludePatterns ''node_modules,dist,build,.git'') []
     [\<lparr>name = ''src'', path = ''src'', itemType = ''dir''\<rparr>,
      \<lparr>name = ''node_modules'', path = ''node_modules'', itemType = ''dir''\<rparr>] =
   scanForTodos 1 exampleSnapshot (parseExcludePatterns ''node_modules,dist,build,.git'') []
     [\<lparr>name = ''src'', path = ''src'', itemType = ''dir''\<rparr>] \<and>
   consistent exampleSnapshot \<and>
   scanForTodos 1 exampleSnapshot (parseExcludePatterns ''node_modules,dist,build,.git'') []
     [\<lparr>name = ''src'', path = ''src'', itemType = ''dir''\<rparr>,
      \<lparr>name = ''node_modules'', path = ''node_modules'', itemType = ''dir''\<rparr>] =
     Some ([exampleTodo], [GetContent ''src'', GetContent ''src/a.js'']) \<and>
   GetContent ''node_modules'' \<notin> set [GetContent ''src'', GetContent ''src/a.js''] \<and>
   list_all (\<lambda>t. file t \<noteq> ''node_modules'' \<and> \<not> startsWith (file t) ''node_modules/'')
     [exampleTodo]"
proof -
  let ?ex = "parseExcludePatterns ''node_modules,dist,build,.git''"
  let ?src = "\<lparr>name = ''src'', path = ''src'', itemType = ''dir''\<rparr>"
  let ?nm = "\<lparr>name = ''node_modules'', path = ''node_modules'', itemType = ''dir''\<rparr>"
  have x: "excluded ?ex ''node_modules''" by code_simp
  have j: "joinPath [] (name ?nm) = ''node_modules''" by (simp add: joinPath_def)
  have c: "consistent exampleSnapshot"
    unfolding consistent_def exampleSnapshot_def by (auto simp: joinPath_def split: if_splits)
  have root: "exampleSnapshot [] = Listing [?src, ?nm]" by (simp add: exampleSnapshot_def)
  have scan: "scanForTodos 1 exampleSnapshot ?ex [] [?src, ?nm] =
      Some ([exampleTodo], [GetContent ''src'', GetContent ''src/a.js''])"
    by code_simp
  from excluded_paths_are_skipped
    [of ?ex "[]" ?nm 1 exampleSnapshot "[?src]" "[]" "[?src, ?nm]" "[exampleTodo]"
      "[GetContent ''src'', GetContent ''src/a.js'']" "''node_modules''"]
    x j c root scan
  show ?thesis unfolding list_all_iff by simp
qed

theorem scan_deterministic_witness:
  "ranked (\<lambda>p. if p = [] then 1 else 0) exampleSnapshot \<and>
   exampleSnapshot [] =
     Listing [\<lparr>name = ''src'', path = ''src'', itemType = ''dir''\<rparr>,
              \<lparr>name = ''node_modules'', path = ''node_modules'', itemType = ''dir''\<rparr>] \<and>
   scanForTodos 1 exampleSnapshot [''node_modules''] []
     [\<lparr>name = ''src'', path = ''src'', itemType = ''dir''\<rparr>,
      \<lparr>name = ''node_modules'', path = ''node_modules'', itemType = ''dir''\<rparr>] =
     Some ([exampleTodo], [GetContent ''src'', GetContent ''src/a.js'']) \<and>
   scanForTodos 4 exampleSnapshot [''node_modules''] []
     [\<lparr>name = ''src'', path = ''src'', itemType = ''dir''\<rparr>,
      \<lparr>name = ''node_modules'', path = ''node_modules'', itemType = ''dir''\<rparr>] =
     Some ([exampleTodo], [GetContent ''src'', GetContent ''src/a.js'']) \<and>
   scanForTodos 1 exampleSnapshot [''node_modules''] []
     ([\<lparr>name = ''src'', path = ''src'', itemType = ''dir''\<rparr>] @
      [\<lparr>name = ''node_modules'', path = ''node_modules'', itemType = ''dir''\<rparr>]) =
     appendResults
       (scanForTodos 1 exampleSnapshot [''node_modules''] []
          [\<lparr>name = ''src'', path = ''src'', itemType = ''dir''\<rparr>])
       (scanForTodos 1 exampleSnapshot [''node_modules''] []
          [\<lparr>name = ''node_modules'', path = ''node_modules'', itemType = ''dir''\<rparr>]) \<and>
   sorted_wrt (<) (map line (fst (scanFileForTodos exampleSnapshot
     \<lparr>name = ''a.js'', path = ''src/a.js'', itemType = ''file''\<rparr>)))"
proof -
  let ?root = "[\<lparr>name = ''src'', path = ''src'', itemType = ''dir''\<rparr>,
      \<lparr>name = ''node_modules'', path = ''node_modules'', itemType = ''dir''\<rparr>]"
  let ?rank = "\<lambda>p::string. if p = [] then 1 else (0::nat)"
  have rk: "ranked ?rank exampleSnapshot" by (rule exampleSnapshot_ranked)
  have root: "exampleSnapshot [] = Listing ?root" by (simp add: exampleSnapshot_def)
  have a: "scanForTodos 1 exampleSnapshot [''node_modules''] [] ?root =
      Some ([exampleTodo], [GetContent ''src'', GetContent ''src/a.js''])"
    by code_simp
  have d: "?rank [] \<le> 1" "?rank [] \<le> 4" by simp_all
  have hyp: "ranked ?rank exampleSnapshot \<and> exampleSnapshot [] = Listing ?root \<and>
      ?rank [] \<le> 1 \<and> ?rank [] \<le> 4"
    using rk root d by - (intro conjI; assumption)
  from scan_deterministic [where rank = ?rank and getContent = exampleSnapshot and cp = "[]"
      and contents = ?root and ?depth1.0 = 1 and ?depth2.0 = 4 and excl = "[''node_modules'']",
      THEN conjunct2, THEN conjunct1, THEN mp, OF hyp]
  obtain todos events where
    b: "scanForTodos 1 exampleSnapshot [''node_modules''] [] ?root = Some (todos, events)"
       "scanForTodos 4 exampleSnapshot [''node_modules''] [] ?root = Some (todos, events)"
    by (elim exE conjE)
  from a b(2) have both:
    "scanForTodos 1 exampleSnapshot [''node_modules''] [] ?root =
       Some ([exampleTodo], [GetContent ''src'', GetContent ''src/a.js'']) \<and>
     scanForTodos 4 exampleSnapshot [''node_modules''] [] ?root = Some (todos, events)"
    by (rule conjI)
  from scan_deterministic [THEN conjunct1, THEN mp, OF both]
  have "[exampleTodo] = todos \<and> [GetContent ''src'', GetContent ''src/a.js''] = events" .
  with b(2) have r4: "scanForTodos 4 exampleSnapshot [''node_modules''] [] ?root =
      Some ([exampleTodo], [GetContent ''src'', GetContent ''src/a.js''])"
    by simp
  have ap: "scanForTodos 1 exampleSnapshot [''node_modules''] []
     ([\<lparr>name = ''src'', path = ''src'', itemType = ''dir''\<rparr>] @
      [\<lparr>name = ''node_modules'', path = ''node_modules'', itemType = ''dir''\<rparr>]) =
     appendResults
       (scanForTodos 1 exampleSnapshot [''node_modules''] []
          [\<lparr>name = ''src'', path = ''src'', itemType = ''dir''\<rparr>])
       (scanForTodos 1 exampleSnapshot [''node_modules''] []
          [\<lparr>name = ''node_modules'', path = ''node_modules'', itemType = ''dir''\<rparr>])"
    by (rule scan_deterministic [THEN conjunct2, THEN conjunct2, THEN conjunct1])
  have so: "sorted_wrt (<) (map line (fst (scanFileForTodos exampleSnapshot
     \<lparr>name = ''a.js'', path = ''src/a.js'', itemType = ''file''\<rparr>)))"
    by (rule scan_deterministic [THEN conjunct2, THEN conjunct2, THEN conjunct2])
  from rk root a r4 ap so show ?thesis by - (intro conjI; assumption)
qed

end
